theory Spec2Isabelle
  imports Main "HOL-Library.Word"
begin

section \<open>Composite keys of kudu/common/encoded\_key.cc\<close>

text \<open>
  The file embeds \<^verbatim>\<open>EncodedKey\<close> and \<^verbatim>\<open>EncodedKeyBuilder\<close>.
  A \<^verbatim>\<open>faststring\<close> and a \<^verbatim>\<open>Slice\<close> are the bytes they hold (capacity is
  not modelled), except where a buffer's place in memory matters: the decode path is
  also modelled with its buffers in memory (\<open>DecodeEncodedString_mem\<close>), and that
  model is shown to come to the model by bytes when the buffers are read. A
  \<^verbatim>\<open>const void*\<close> is an address (a natural number, \<open>0\<close> being \<^verbatim>\<open>NULL\<close>; address
  arithmetic does not wrap), a \<^verbatim>\<open>gscoped_ptr<EncodedKey>\<close> is an option. Sizes and
  indices are natural numbers (no key has \<open>2^31\<close> columns or bytes).

  The collaborators whose code is not in this file are parameters of the functions
  that call them:
  \<^item> \<^verbatim>\<open>GetKeyEncoder(type).Encode(raw_key, is_last, &buf)\<close> is
    \<open>Encode type raw_key is_last buf\<close>, the buffer after the call;
  \<^item> \<^verbatim>\<open>faststring::AdvanceToSuccessor()\<close> is a function from the buffer to the
    returned flag and the buffer after the call;
  \<^item> \<^verbatim>\<open>Arena::AllocateBytes\<close> and \<^verbatim>\<open>Schema::DecodeRowKey\<close> take and return the
    state of the arena (its bookkeeping and the memory it hands out); in the model
    with memory the decoder takes and returns memory too, and the address of the
    array a faststring allocates is a parameter;
  \<^item> \<^verbatim>\<open>ColumnSchema::Stringify(cell)\<close> is a function of the column and the address.
\<close>

type_synonym byte = "8 word"
type_synonym addr = nat

text \<open>The status codes of \<^verbatim>\<open>Status\<close> with their messages.\<close>

datatype Status =
    OK
  | NotFound string
  | Corruption string
  | NotSupported string
  | InvalidArgument string
  | IOError string
  | RuntimeError string
  | IllegalState string

text \<open>
  What C++ leaves undefined or aborts on is a fault of the model: a \<^verbatim>\<open>DCHECK\<close> that
  fails in a build with assertions, an index past the end of a vector, a call through
  a null pointer.
\<close>

datatype fault = DCheckFailed | OutOfRange | NullDeref

record 'ty ColumnSchema =
  type_info :: 'ty
  is_nullable :: bool

record 'ty Schema =
  cols :: "'ty ColumnSchema list"
  col_offsets :: "nat list"
  num_key_columns :: nat
  key_byte_size :: nat

text \<open>
  \<^verbatim>\<open>Schema::column(i)\<close> and \<^verbatim>\<open>Schema::column_offset(i)\<close> index the schema's
  vectors; an index past the end is a fault in every build.
\<close>

definition column :: "'ty Schema \<Rightarrow> nat \<Rightarrow> fault + 'ty ColumnSchema" where
  "column schema i =
     (if i < length (cols schema) then Inr (cols schema ! i) else Inl OutOfRange)"

definition column_offset :: "'ty Schema \<Rightarrow> nat \<Rightarrow> fault + nat" where
  "column_offset schema i =
     (if i < length (col_offsets schema) then Inr (col_offsets schema ! i)
      else Inl OutOfRange)"

text \<open>
  Modelled from the spec: \<^verbatim>\<open>DCHECK_SCHEMA_EQ\<close>, a macro of schema.h. Two schemas
  are structurally identical when they agree on column count, types and order.
\<close>

definition Schema_Equals :: "'ty Schema \<Rightarrow> 'ty Schema \<Rightarrow> bool" where
  "Schema_Equals a b \<longleftrightarrow> num_key_columns a = num_key_columns b \<and> cols a = cols b"

record EncodedKey =
  data :: "byte list"
  encoded_key :: "byte list"
  raw_keys :: "addr list"
  num_key_cols :: nat

record 'ty EncodedKeyBuilder =
  kb_schema :: "'ty Schema"
  kb_encoded_key :: "byte list"
  kb_num_key_cols :: nat
  kb_idx :: nat
  kb_raw_keys :: "addr list"

type_synonym 'ty KeyEncoder = "'ty \<Rightarrow> addr \<Rightarrow> bool \<Rightarrow> byte list \<Rightarrow> byte list"
type_synonym Successor = "byte list \<Rightarrow> bool \<times> byte list"

subsection \<open>EncodedKey\<close>

text \<open>
  Modelled from the spec: \<^verbatim>\<open>faststring::release\<close>, which hands the buffer over and
  leaves the faststring empty ("the builder's own buffer slot is logically empty").
  The constructor takes the bytes out of \<^verbatim>\<open>*data\<close> and swaps \<^verbatim>\<open>*raw_keys\<close> with
  its own, empty, vector. It returns the key, and what is left in \<^verbatim>\<open>*data\<close> and
  \<^verbatim>\<open>*raw_keys\<close>. The flag \<open>dbg\<close> says whether the build checks its
  \<^verbatim>\<open>DCHECK\<close>s.
\<close>

definition EncodedKey_new ::
  "bool \<Rightarrow> byte list \<Rightarrow> addr list \<Rightarrow> nat \<Rightarrow> fault + (EncodedKey \<times> byte list \<times> addr list)" where
  "EncodedKey_new dbg fs raw num =
     (let len = length fs in
      if dbg \<and> \<not> length raw \<le> num then Inl DCheckFailed
      else Inr (\<lparr>data = fs, encoded_key = take len fs, raw_keys = raw, num_key_cols = num\<rparr>,
                [], []))"

subsection \<open>EncodedKeyBuilder\<close>

definition EncodedKeyBuilder :: "'ty Schema \<Rightarrow> 'ty EncodedKeyBuilder" where
  "EncodedKeyBuilder schema =
     \<lparr>kb_schema = schema, kb_encoded_key = [], kb_num_key_cols = num_key_columns schema,
      kb_idx = 0, kb_raw_keys = []\<rparr>"

definition Reset :: "'ty EncodedKeyBuilder \<Rightarrow> 'ty EncodedKeyBuilder" where
  "Reset kb = kb\<lparr>kb_encoded_key := [], kb_idx := 0, kb_raw_keys := []\<rparr>"

text \<open>
  \<^verbatim>\<open>is_last = idx_ == num_key_cols_ - 1\<close>: the subtraction is the machine's, so with
  no key column the right-hand side is not \<open>0\<close> (it is \<open>-1\<close>, or the largest
  \<^verbatim>\<open>size_t\<close>) and the comparison is false; it is written over \<open>int\<close> here.
\<close>

definition AddColumnKey ::
  "bool \<Rightarrow> 'ty KeyEncoder \<Rightarrow> 'ty EncodedKeyBuilder \<Rightarrow> addr \<Rightarrow> fault + 'ty EncodedKeyBuilder" where
  "AddColumnKey dbg Encode kb raw_key =
     (if dbg \<and> \<not> kb_idx kb < kb_num_key_cols kb then Inl DCheckFailed
      else case column (kb_schema kb) (kb_idx kb) of
        Inl f \<Rightarrow> Inl f
      | Inr col \<Rightarrow>
          if dbg \<and> is_nullable col then Inl DCheckFailed
          else
            let ti = type_info col;
                is_last = (int (kb_idx kb) = int (kb_num_key_cols kb) - 1)
            in Inr (kb\<lparr>kb_encoded_key := Encode ti raw_key is_last (kb_encoded_key kb),
                       kb_raw_keys := kb_raw_keys kb @ [raw_key],
                       kb_idx := kb_idx kb + 1\<rparr>))"

definition BuildEncodedKey ::
  "bool \<Rightarrow> 'ty EncodedKeyBuilder \<Rightarrow> fault + (EncodedKey option \<times> 'ty EncodedKeyBuilder)" where
  "BuildEncodedKey dbg kb =
     (if kb_idx kb = 0 then Inr (None, kb)
      else case EncodedKey_new dbg (kb_encoded_key kb) (kb_raw_keys kb) (kb_num_key_cols kb) of
        Inl f \<Rightarrow> Inl f
      | Inr (ret, fs, raw) \<Rightarrow>
          Inr (Some ret, kb\<lparr>kb_encoded_key := fs, kb_raw_keys := raw, kb_idx := 0\<rparr>))"

definition BuildSuccessorEncodedKey ::
  "bool \<Rightarrow> Successor \<Rightarrow> 'ty EncodedKeyBuilder
     \<Rightarrow> fault + (EncodedKey option \<times> 'ty EncodedKeyBuilder)" where
  "BuildSuccessorEncodedKey dbg AdvanceToSuccessor kb =
     (let (advanced, fs) = AdvanceToSuccessor (kb_encoded_key kb);
          kb1 = kb\<lparr>kb_encoded_key := fs\<rparr>
      in if advanced then BuildEncodedKey dbg kb1 else Inr (None, kb1))"

definition AssignCopy ::
  "bool \<Rightarrow> 'ty EncodedKeyBuilder \<Rightarrow> 'ty EncodedKeyBuilder \<Rightarrow> fault + 'ty EncodedKeyBuilder" where
  "AssignCopy dbg kb other =
     (if dbg \<and> \<not> Schema_Equals (kb_schema kb) (kb_schema other) then Inl DCheckFailed
      else Inr (kb\<lparr>kb_encoded_key := kb_encoded_key other,
                   kb_idx := kb_idx other,
                   kb_raw_keys := kb_raw_keys other\<rparr>))"

subsection \<open>EncodedKey::IncrementEncodedKey\<close>

text \<open>
  \<^verbatim>\<open>DCHECK_EQ(key_ptr->num_key_columns(), tablet_schema.num_key_columns())\<close>: a
  build with assertions calls through \<^verbatim>\<open>key_ptr\<close> here, a build without them does
  not evaluate it.
\<close>

definition DCHECK_EQ_num_key_columns ::
  "bool \<Rightarrow> EncodedKey option \<Rightarrow> 'ty Schema \<Rightarrow> fault + unit" where
  "DCHECK_EQ_num_key_columns dbg key_ptr tablet_schema =
     (if dbg then
        case key_ptr of
          None \<Rightarrow> Inl NullDeref
        | Some k \<Rightarrow>
            if num_key_cols k = num_key_columns tablet_schema then Inr () else Inl DCheckFailed
      else Inr ())"

text \<open>
  The loop \<^verbatim>\<open>for (int i = 0; i < tablet_schema.num_key_columns(); i++)\<close> reads
  \<^verbatim>\<open>key_ptr->raw_keys()[i]\<close> first (through a null \<^verbatim>\<open>key_ptr\<close>, or past the end of
  the vector, it is a fault) and then calls \<^verbatim>\<open>AddColumnKey\<close>.
\<close>

function IncrementEncodedKey_loop ::
  "bool \<Rightarrow> 'ty KeyEncoder \<Rightarrow> 'ty Schema \<Rightarrow> EncodedKey option \<Rightarrow> nat
     \<Rightarrow> 'ty EncodedKeyBuilder \<Rightarrow> fault + 'ty EncodedKeyBuilder" where
  "IncrementEncodedKey_loop dbg Encode tablet_schema key_ptr i kb =
     (if i < num_key_columns tablet_schema then
        case key_ptr of
          None \<Rightarrow> Inl NullDeref
        | Some k \<Rightarrow>
            if i < length (raw_keys k) then
              (case AddColumnKey dbg Encode kb (raw_keys k ! i) of
                 Inl f \<Rightarrow> Inl f
               | Inr kb1 \<Rightarrow>
                   IncrementEncodedKey_loop dbg Encode tablet_schema key_ptr (i + 1) kb1)
            else Inl OutOfRange
      else Inr kb)"
  by pat_completeness auto
termination
  by (relation "measure (\<lambda>(dbg, Encode, s, k, i, kb). num_key_columns s - i)") auto

declare IncrementEncodedKey_loop.simps [simp del]

definition IncrementEncodedKey ::
  "bool \<Rightarrow> 'ty KeyEncoder \<Rightarrow> Successor \<Rightarrow> 'ty Schema \<Rightarrow> EncodedKey option
     \<Rightarrow> fault + (Status \<times> EncodedKey option)" where
  "IncrementEncodedKey dbg Encode AdvanceToSuccessor tablet_schema key =
     (let key_ptr = key in
      case DCHECK_EQ_num_key_columns dbg key_ptr tablet_schema of
        Inl f \<Rightarrow> Inl f
      | Inr u \<Rightarrow>
          (case IncrementEncodedKey_loop dbg Encode tablet_schema key_ptr 0
                  (EncodedKeyBuilder tablet_schema) of
             Inl f \<Rightarrow> Inl f
           | Inr kb \<Rightarrow>
               (case BuildSuccessorEncodedKey dbg AdvanceToSuccessor kb of
                  Inl f \<Rightarrow> Inl f
                | Inr (successor, kb1) \<Rightarrow>
                    if successor = None
                    then Inr (IllegalState ''No lexicographically greater key exists'', key)
                    else Inr (OK, successor))))"

subsection \<open>EncodedKey::DecodeEncodedString\<close>

text \<open>
  \<^verbatim>\<open>raw_keys\<close> starts as \<^verbatim>\<open>num_key_columns\<close> null pointers; the loop stores
  \<^verbatim>\<open>raw_key_buf + schema.column_offset(i)\<close> at index \<open>i\<close>, which is always inside
  the vector.
\<close>

function DecodeEncodedString_loop ::
  "'ty Schema \<Rightarrow> addr \<Rightarrow> nat \<Rightarrow> addr list \<Rightarrow> fault + addr list" where
  "DecodeEncodedString_loop schema raw_key_buf i raw =
     (if i < num_key_columns schema then
        case column_offset schema i of
          Inl f \<Rightarrow> Inl f
        | Inr off \<Rightarrow>
            DecodeEncodedString_loop schema raw_key_buf (i + 1) (raw[i := raw_key_buf + off])
      else Inr raw)"
  by pat_completeness auto
termination
  by (relation "measure (\<lambda>(s, b, i, raw). num_key_columns s - i)") auto

declare DecodeEncodedString_loop.simps [simp del]

text \<open>
  \<open>result\<close> is the slot \<^verbatim>\<open>*result\<close> before the call; the function returns the status,
  the arena after the call and the slot after the call.
\<close>

definition DecodeEncodedString ::
  "bool \<Rightarrow> ('arena \<Rightarrow> nat \<Rightarrow> addr \<times> 'arena)
     \<Rightarrow> ('ty Schema \<Rightarrow> byte list \<Rightarrow> addr \<Rightarrow> 'arena \<Rightarrow> Status \<times> 'arena)
     \<Rightarrow> 'ty Schema \<Rightarrow> 'arena \<Rightarrow> byte list \<Rightarrow> EncodedKey option
     \<Rightarrow> fault + (Status \<times> 'arena \<times> EncodedKey option)" where
  "DecodeEncodedString dbg AllocateBytes DecodeRowKey schema arena encoded result =
     (let (raw_key_buf, arena1) = AllocateBytes arena (key_byte_size schema) in
      if raw_key_buf = 0 then Inr (RuntimeError ''OOM'', arena1, result)
      else
        let (s, arena2) = DecodeRowKey schema encoded raw_key_buf arena1 in
        if s \<noteq> OK then Inr (s, arena2, result)
        else
          case DecodeEncodedString_loop schema raw_key_buf 0
                 (replicate (num_key_columns schema) 0) of
            Inl f \<Rightarrow> Inl f
          | Inr raw \<Rightarrow>
              let data_copy = encoded in
              (case EncodedKey_new dbg data_copy raw (num_key_columns schema) of
                 Inl f \<Rightarrow> Inl f
               | Inr (k, fs, rest) \<Rightarrow> Inr (OK, arena2, Some k)))"

subsection \<open>EncodedKey::DecodeEncodedString, with its buffers in memory\<close>

text \<open>
  The same function with pointers kept as pointers. Memory maps addresses to bytes; a
  \<^verbatim>\<open>Slice\<close> is a pointer and a size and views the bytes memory holds there; a key
  holds the pointer \<^verbatim>\<open>data_\<close> to the array it owns and the \<^verbatim>\<open>Slice\<close>
  \<^verbatim>\<open>encoded_key_\<close>. The row-key decoder takes the caller's \<^verbatim>\<open>Slice\<close> and writes
  memory.
\<close>

type_synonym memory = "addr \<Rightarrow> byte"

record Slice =
  slice_data :: addr
  slice_size :: nat

definition Slice_bytes :: "memory \<Rightarrow> Slice \<Rightarrow> byte list" where
  "Slice_bytes mem s = map mem [slice_data s..<slice_data s + slice_size s]"

text \<open>\<^verbatim>\<open>memcpy(dst, src, n)\<close>: the \<open>n\<close> bytes at \<open>dst\<close> become those at \<open>src\<close>.\<close>

definition memcpy :: "memory \<Rightarrow> addr \<Rightarrow> addr \<Rightarrow> nat \<Rightarrow> memory" where
  "memcpy mem dst src n =
     (\<lambda>a. if dst \<le> a \<and> a < dst + n then mem (src + (a - dst)) else mem a)"

text \<open>
  Modelled from the spec: \<^verbatim>\<open>faststring::assign_copy\<close> and \<^verbatim>\<open>faststring::release\<close>
  ("copy \<open>encoded_bytes\<close> into a fresh owned buffer"; after the hand-over "the
  builder's own buffer slot is logically empty"). A faststring is the pointer to its
  array and its length. \<open>array\<close> is the address of the array the faststring copies
  into and, on \<^verbatim>\<open>release\<close>, hands over: where the allocator puts it is a parameter.
  An emptied faststring points at no array (\<open>0\<close>).
\<close>

record faststring =
  fs_data :: addr
  fs_len :: nat

definition assign_copy :: "addr \<Rightarrow> memory \<Rightarrow> addr \<Rightarrow> nat \<Rightarrow> faststring \<times> memory" where
  "assign_copy array mem src n = (\<lparr>fs_data = array, fs_len = n\<rparr>, memcpy mem array src n)"

definition release :: "faststring \<Rightarrow> addr \<times> faststring" where
  "release fs = (fs_data fs, \<lparr>fs_data = 0, fs_len = 0\<rparr>)"

text \<open>
  The constructor: \<^verbatim>\<open>data_\<close> takes the array the faststring releases, and
  \<^verbatim>\<open>encoded_key_ = Slice(data_.get(), len)\<close> views it.
\<close>

record EncodedKey_mem =
  mem_data :: addr
  mem_encoded_key :: Slice
  mem_raw_keys :: "addr list"
  mem_num_key_cols :: nat

definition EncodedKey_mem_new ::
  "bool \<Rightarrow> faststring \<Rightarrow> addr list \<Rightarrow> nat
     \<Rightarrow> fault + (EncodedKey_mem \<times> faststring \<times> addr list)" where
  "EncodedKey_mem_new dbg fs raw num =
     (let len = fs_len fs;
          (p, fs1) = release fs
      in if dbg \<and> \<not> length raw \<le> num then Inl DCheckFailed
         else Inr (\<lparr>mem_data = p, mem_encoded_key = \<lparr>slice_data = p, slice_size = len\<rparr>,
                    mem_raw_keys = raw, mem_num_key_cols = num\<rparr>, fs1, []))"

text \<open>
  \<open>mem\<close> is memory and \<open>result\<close> the slot before the call; the function returns the
  status, the arena, memory and the slot after the call.
\<close>

definition DecodeEncodedString_mem ::
  "bool \<Rightarrow> ('arena \<Rightarrow> nat \<Rightarrow> addr \<times> 'arena)
     \<Rightarrow> ('ty Schema \<Rightarrow> Slice \<Rightarrow> addr \<Rightarrow> 'arena \<Rightarrow> memory \<Rightarrow> Status \<times> 'arena \<times> memory)
     \<Rightarrow> addr \<Rightarrow> 'ty Schema \<Rightarrow> 'arena \<Rightarrow> memory \<Rightarrow> Slice \<Rightarrow> EncodedKey_mem option
     \<Rightarrow> fault + (Status \<times> 'arena \<times> memory \<times> EncodedKey_mem option)" where
  "DecodeEncodedString_mem dbg AllocateBytes DecodeRowKey array schema arena mem encoded result =
     (let (raw_key_buf, arena1) = AllocateBytes arena (key_byte_size schema) in
      if raw_key_buf = 0 then Inr (RuntimeError ''OOM'', arena1, mem, result)
      else
        let (s, arena2, mem2) = DecodeRowKey schema encoded raw_key_buf arena1 mem in
        if s \<noteq> OK then Inr (s, arena2, mem2, result)
        else
          case DecodeEncodedString_loop schema raw_key_buf 0
                 (replicate (num_key_columns schema) 0) of
            Inl f \<Rightarrow> Inl f
          | Inr raw \<Rightarrow>
              let (data_copy, mem3) =
                    assign_copy array mem2 (slice_data encoded) (slice_size encoded)
              in (case EncodedKey_mem_new dbg data_copy raw (num_key_columns schema) of
                    Inl f \<Rightarrow> Inl f
                  | Inr (k, fs, rest) \<Rightarrow> Inr (OK, arena2, mem3, Some k)))"

subsection \<open>EncodedKey::Stringify\<close>

text \<open>
  A \<^verbatim>\<open>const\<close> member function: it returns the text and changes nothing, so the model
  returns the text only. \<open>str\<close> is \<^verbatim>\<open>ColumnSchema::Stringify\<close>.
\<close>

function Stringify_loop ::
  "('ty ColumnSchema \<Rightarrow> addr \<Rightarrow> string) \<Rightarrow> 'ty Schema \<Rightarrow> EncodedKey \<Rightarrow> nat \<Rightarrow> string
     \<Rightarrow> fault + string" where
  "Stringify_loop str schema k i s =
     (if i < num_key_cols k then
        let s1 = (if i > 0 then s @ '','' else s) in
        if i < length (raw_keys k) then
          case column schema i of
            Inl f \<Rightarrow> Inl f
          | Inr col \<Rightarrow> Stringify_loop str schema k (i + 1) (s1 @ str col (raw_keys k ! i))
        else Stringify_loop str schema k (i + 1) (s1 @ ''*'')
      else Inr s)"
  by pat_completeness auto
termination
  by (relation "measure (\<lambda>(str, schema, k, i, s). num_key_cols k - i)") auto

declare Stringify_loop.simps [simp del]

definition Stringify ::
  "('ty ColumnSchema \<Rightarrow> addr \<Rightarrow> string) \<Rightarrow> 'ty Schema \<Rightarrow> EncodedKey \<Rightarrow> fault + string" where
  "Stringify str schema k =
     (if num_key_cols k = 1 then
        case column schema 0 of
          Inl f \<Rightarrow> Inl f
        | Inr col \<Rightarrow> (case raw_keys k of [] \<Rightarrow> Inl OutOfRange | r # rest \<Rightarrow> Inr (str col r))
      else
        case Stringify_loop str schema k 0 ''('' of
          Inl f \<Rightarrow> Inl f
        | Inr s \<Rightarrow> Inr (s @ '')''))"

section \<open>Well-formed objects and what the operations are compared with\<close>

text \<open>
  A schema has its key columns among its columns. In a build with assertions
  \<^verbatim>\<open>AddColumnKey\<close> asserts that the column it encodes is not nullable, so there no
  key column may be.
\<close>

definition schema_ok :: "bool \<Rightarrow> 'ty Schema \<Rightarrow> bool" where
  "schema_ok dbg s \<longleftrightarrow>
     num_key_columns s \<le> length (cols s) \<and>
     (dbg \<longrightarrow> list_all (\<lambda>c. \<not> is_nullable c) (take (num_key_columns s) (cols s)))"

text \<open>The builder's invariant of the spec: the cursor counts the raw values held.\<close>

definition cursor_inv :: "'ty EncodedKeyBuilder \<Rightarrow> bool" where
  "cursor_inv kb \<longleftrightarrow> kb_idx kb = length (kb_raw_keys kb)"

text \<open>A caller's sequence of \<^verbatim>\<open>AddColumnKey\<close> calls, stopped by the first fault.\<close>

fun AddColumnKeys ::
  "bool \<Rightarrow> 'ty KeyEncoder \<Rightarrow> 'ty EncodedKeyBuilder \<Rightarrow> addr list
     \<Rightarrow> fault + 'ty EncodedKeyBuilder" where
  "AddColumnKeys dbg Encode kb [] = Inr kb"
| "AddColumnKeys dbg Encode kb (r # rs) =
     (case AddColumnKey dbg Encode kb r of
        Inl f \<Rightarrow> Inl f
      | Inr kb1 \<Rightarrow> AddColumnKeys dbg Encode kb1 rs)"

text \<open>
  The spec's encoding of consecutive columns, from column \<open>i\<close> on: each value goes
  through the codec of its column's type, and the flag is set for column
  \<open>num_key_columns - 1\<close> only.
\<close>

fun encode_columns ::
  "'ty KeyEncoder \<Rightarrow> 'ty Schema \<Rightarrow> nat \<Rightarrow> addr list \<Rightarrow> byte list \<Rightarrow> byte list" where
  "encode_columns Encode schema i [] buf = buf"
| "encode_columns Encode schema i (r # rs) buf =
     encode_columns Encode schema (i + 1) rs
       (Encode (type_info (cols schema ! i)) r (i + 1 = num_key_columns schema) buf)"

text \<open>
  The spec's rendering of a key with several columns: the values supplied, then \<open>*\<close>
  for each column without one, separated by commas, in parentheses.
\<close>

definition render_column ::
  "('ty ColumnSchema \<Rightarrow> addr \<Rightarrow> string) \<Rightarrow> 'ty Schema \<Rightarrow> EncodedKey \<Rightarrow> nat \<Rightarrow> string" where
  "render_column str schema k i =
     (if i < length (raw_keys k) then str (cols schema ! i) (raw_keys k ! i) else ''*'')"

fun comma_separated :: "string list \<Rightarrow> string" where
  "comma_separated [] = []"
| "comma_separated [x] = x"
| "comma_separated (x # y # ys) = x @ '','' @ comma_separated (y # ys)"

definition render_tuple ::
  "('ty ColumnSchema \<Rightarrow> addr \<Rightarrow> string) \<Rightarrow> 'ty Schema \<Rightarrow> EncodedKey \<Rightarrow> string" where
  "render_tuple str schema k =
     ''('' @ comma_separated (map (render_column str schema k) [0..<num_key_cols k]) @ '')''"

text \<open>
  The key by bytes that a key in memory stands for: the bytes at its pointers.
\<close>

definition EncodedKey_of :: "memory \<Rightarrow> EncodedKey_mem \<Rightarrow> EncodedKey" where
  "EncodedKey_of mem k =
     \<lparr>data = Slice_bytes mem \<lparr>slice_data = mem_data k,
                                slice_size = slice_size (mem_encoded_key k)\<rparr>,
      encoded_key = Slice_bytes mem (mem_encoded_key k),
      raw_keys = mem_raw_keys k,
      num_key_cols = mem_num_key_cols k\<rparr>"

text \<open>
  The allocator and the decoder of the model by bytes that go with those of the model
  in memory: their arena carries memory along, and the decoder is given the caller's
  \<^verbatim>\<open>Slice\<close>.
\<close>

definition with_memory_AllocateBytes ::
  "('arena \<Rightarrow> nat \<Rightarrow> addr \<times> 'arena) \<Rightarrow> 'arena \<times> memory \<Rightarrow> nat
     \<Rightarrow> addr \<times> ('arena \<times> memory)" where
  "with_memory_AllocateBytes AllocateBytes am n =
     (let (p, arena1) = AllocateBytes (fst am) n in (p, (arena1, snd am)))"

definition with_memory_DecodeRowKey ::
  "('ty Schema \<Rightarrow> Slice \<Rightarrow> addr \<Rightarrow> 'arena \<Rightarrow> memory \<Rightarrow> Status \<times> 'arena \<times> memory)
     \<Rightarrow> Slice \<Rightarrow> 'ty Schema \<Rightarrow> byte list \<Rightarrow> addr \<Rightarrow> 'arena \<times> memory
     \<Rightarrow> Status \<times> ('arena \<times> memory)" where
  "with_memory_DecodeRowKey DecodeRowKey encoded schema bytes buf am =
     (let (s, arena2, mem2) = DecodeRowKey schema encoded buf (fst am) (snd am)
      in (s, (arena2, mem2)))"

text \<open>
  \<open>outside s a\<close>: the address \<open>a\<close> is not in the buffer \<open>s\<close> views.
  \<open>disjoint_from array s\<close>: an array of the size of \<open>s\<close> at \<open>array\<close> does not overlap the
  buffer \<open>s\<close> views.
\<close>

definition outside :: "Slice \<Rightarrow> addr \<Rightarrow> bool" where
  "outside s a \<longleftrightarrow> a < slice_data s \<or> slice_data s + slice_size s \<le> a"

definition disjoint_from :: "addr \<Rightarrow> Slice \<Rightarrow> bool" where
  "disjoint_from array s \<longleftrightarrow>
     array + slice_size s \<le> slice_data s \<or> slice_data s + slice_size s \<le> array"

text \<open>
  Modelled from the spec: \<^verbatim>\<open>faststring::AdvanceToSuccessor\<close>. "Increment the last
  byte; on overflow (byte was already at its maximum value), reset that byte to its
  minimum and carry into the preceding byte, repeating leftward. If every byte
  overflows, no successor exists: the transform fails." \<open>carry\<close> works on the
  reversed buffer.
\<close>

fun carry :: "byte list \<Rightarrow> bool \<times> byte list" where
  "carry [] = (False, [])"
| "carry (b # bs) =
     (if b = 0xFF then (let (advanced, bs1) = carry bs in (advanced, 0 # bs1))
      else (True, (b + 1) # bs))"

definition AdvanceToSuccessor :: Successor where
  "AdvanceToSuccessor fs = (let (advanced, r) = carry (rev fs) in (advanced, rev r))"

subsection \<open>Objects the statements are tried on\<close>

text \<open>
  A schema with the key columns \<open>(a, b)\<close> and a nullable value column; types are
  numbered. The codec \<open>spy_Encode\<close> appends the address it was given (as a byte) and
  the flag it was given; \<open>show_cell\<close> prints the type number's letter and the address
  in unary. The arena \<open>bump_Allocate\<close> hands out addresses from \<open>1\<close> up to \<open>64\<close>;
  \<open>nonempty_DecodeRowKey\<close> rejects the empty string.
\<close>

definition ab_schema :: "nat Schema" where
  "ab_schema =
     \<lparr>cols = [\<lparr>type_info = 0, is_nullable = False\<rparr>,
              \<lparr>type_info = 1, is_nullable = False\<rparr>,
              \<lparr>type_info = 0, is_nullable = True\<rparr>],
      col_offsets = [0, 4, 20],
      num_key_columns = 2,
      key_byte_size = 20\<rparr>"

definition a_schema :: "nat Schema" where
  "a_schema =
     \<lparr>cols = [\<lparr>type_info = 0, is_nullable = False\<rparr>],
      col_offsets = [0],
      num_key_columns = 1,
      key_byte_size = 4\<rparr>"

definition spy_Encode :: "nat KeyEncoder" where
  "spy_Encode ti raw_key is_last buf = buf @ [of_nat raw_key, if is_last then 1 else 0]"

definition max_Encode :: "nat KeyEncoder" where
  "max_Encode ti raw_key is_last buf = buf @ [0xFF]"

definition show_cell :: "nat ColumnSchema \<Rightarrow> addr \<Rightarrow> string" where
  "show_cell col cell =
     (if type_info col = 0 then ''i'' else ''s'') @ replicate cell (CHR ''|'')"

definition bump_Allocate :: "nat \<Rightarrow> nat \<Rightarrow> addr \<times> nat" where
  "bump_Allocate used n = (if used + n \<le> 64 then (used + 1, used + n) else (0, used))"

definition nonempty_DecodeRowKey :: "nat Schema \<Rightarrow> byte list \<Rightarrow> addr \<Rightarrow> nat \<Rightarrow> Status \<times> nat" where
  "nonempty_DecodeRowKey schema encoded buf used =
     (if encoded = [] then (InvalidArgument ''key too short'', used) else (OK, used))"

definition ab_key :: EncodedKey where
  "ab_key = \<lparr>data = [7, 0, 9, 1], encoded_key = [7, 0, 9, 1], raw_keys = [7, 9],
             num_key_cols = 2\<rparr>"

definition a_prefix_key :: EncodedKey where
  "a_prefix_key = \<lparr>data = [7, 0], encoded_key = [7, 0], raw_keys = [7], num_key_cols = 2\<rparr>"

definition ab_builder :: "nat EncodedKeyBuilder" where
  "ab_builder =
     \<lparr>kb_schema = ab_schema, kb_encoded_key = [0xFF, 0xFF], kb_num_key_cols = 2, kb_idx = 2,
      kb_raw_keys = [7, 9]\<rparr>"

definition a_builder :: "nat EncodedKeyBuilder" where
  "a_builder =
     \<lparr>kb_schema = ab_schema, kb_encoded_key = [7, 0], kb_num_key_cols = 2, kb_idx = 1,
      kb_raw_keys = [7]\<rparr>"

definition a_key :: EncodedKey where
  "a_key = \<lparr>data = [7, 1], encoded_key = [7, 1], raw_keys = [7], num_key_cols = 1\<rparr>"

definition no_value_key :: EncodedKey where
  "no_value_key = \<lparr>data = [], encoded_key = [], raw_keys = [], num_key_cols = 1\<rparr>"

text \<open>
  For the decode path: a decoder that runs out of arena memory; and, in memory, a
  memory whose byte at each address is the address, the caller's buffer of three bytes
  at \<open>100\<close>, and a decoder that writes the first encoded byte into the allocation.
\<close>

definition oom_DecodeRowKey :: "nat Schema \<Rightarrow> byte list \<Rightarrow> addr \<Rightarrow> nat \<Rightarrow> Status \<times> nat" where
  "oom_DecodeRowKey schema encoded buf used = (RuntimeError ''OOM'', used)"

definition address_bytes :: memory where
  "address_bytes a = of_nat a"

definition caller_slice :: Slice where
  "caller_slice = \<lparr>slice_data = 100, slice_size = 3\<rparr>"

definition cell_DecodeRowKey ::
  "nat Schema \<Rightarrow> Slice \<Rightarrow> addr \<Rightarrow> nat \<Rightarrow> memory \<Rightarrow> Status \<times> nat \<times> memory" where
  "cell_DecodeRowKey schema encoded buf used mem =
     (if slice_size encoded = 0 then (InvalidArgument ''key too short'', used, mem)
      else (OK, used, mem(buf := mem (slice_data encoded))))"

section \<open>Properties\<close>

subsection \<open>The constructor of a key and AddColumnKey\<close>

lemma EncodedKey_new_ok:
  "\<not> dbg \<or> length raw \<le> num \<Longrightarrow>
   EncodedKey_new dbg fs raw num =
     Inr (\<lparr>data = fs, encoded_key = fs, raw_keys = raw, num_key_cols = num\<rparr>, [], [])"
  by (auto simp add: EncodedKey_new_def)

lemma column_key:
  "schema_ok dbg s \<Longrightarrow> i < num_key_columns s \<Longrightarrow>
   column s i = Inr (cols s ! i) \<and> (dbg \<longrightarrow> \<not> is_nullable (cols s ! i))"
  by (simp add: schema_ok_def column_def list_all_length)

lemma AddColumnKey_ok:
  assumes "schema_ok dbg (kb_schema kb)"
    and "kb_num_key_cols kb = num_key_columns (kb_schema kb)"
    and "kb_idx kb < kb_num_key_cols kb"
  shows "AddColumnKey dbg Encode kb r =
     Inr (kb\<lparr>kb_encoded_key :=
               Encode (type_info (cols (kb_schema kb) ! kb_idx kb)) r
                 (kb_idx kb + 1 = num_key_columns (kb_schema kb)) (kb_encoded_key kb),
            kb_raw_keys := kb_raw_keys kb @ [r],
            kb_idx := kb_idx kb + 1\<rparr>)"
proof -
  have c: "column (kb_schema kb) (kb_idx kb) = Inr (cols (kb_schema kb) ! kb_idx kb)"
    and n: "dbg \<longrightarrow> \<not> is_nullable (cols (kb_schema kb) ! kb_idx kb)"
    using assms column_key [of dbg "kb_schema kb" "kb_idx kb"] by simp_all
  have l: "(int (kb_idx kb) = int (kb_num_key_cols kb) - 1)
             = (kb_idx kb + 1 = num_key_columns (kb_schema kb))"
    using assms by auto
  show ?thesis
    using assms(3) by (simp add: AddColumnKey_def c n l Let_def)
qed

lemma AddColumnKeys_ok:
  assumes "schema_ok dbg (kb_schema kb)"
    and "kb_num_key_cols kb = num_key_columns (kb_schema kb)"
    and "kb_idx kb + length rs \<le> kb_num_key_cols kb"
  shows "AddColumnKeys dbg Encode kb rs =
     Inr (kb\<lparr>kb_encoded_key :=
               encode_columns Encode (kb_schema kb) (kb_idx kb) rs (kb_encoded_key kb),
            kb_raw_keys := kb_raw_keys kb @ rs,
            kb_idx := kb_idx kb + length rs\<rparr>)"
  using assms
proof (induction rs arbitrary: kb)
  case Nil
  then show ?case by simp
next
  case (Cons r rs)
  let ?kb1 = "kb\<lparr>kb_encoded_key :=
               Encode (type_info (cols (kb_schema kb) ! kb_idx kb)) r
                 (kb_idx kb + 1 = num_key_columns (kb_schema kb)) (kb_encoded_key kb),
            kb_raw_keys := kb_raw_keys kb @ [r],
            kb_idx := kb_idx kb + 1\<rparr>"
  have step: "AddColumnKey dbg Encode kb r = Inr ?kb1"
    using Cons.prems by (intro AddColumnKey_ok) simp_all
  have "AddColumnKeys dbg Encode ?kb1 rs =
     Inr (?kb1\<lparr>kb_encoded_key :=
               encode_columns Encode (kb_schema ?kb1) (kb_idx ?kb1) rs (kb_encoded_key ?kb1),
            kb_raw_keys := kb_raw_keys ?kb1 @ rs,
            kb_idx := kb_idx ?kb1 + length rs\<rparr>)"
    using Cons.prems by (intro Cons.IH) simp_all
  then show ?case
    by (simp add: step)
qed


subsection \<open>The loop of IncrementEncodedKey\<close>

lemma loop_complete_aux:
  "kp = Some K \<Longrightarrow> i \<le> num_key_columns S \<Longrightarrow> num_key_columns S \<le> length (raw_keys K) \<Longrightarrow>
   IncrementEncodedKey_loop dbg Encode S kp i kb =
     AddColumnKeys dbg Encode kb (take (num_key_columns S - i) (drop i (raw_keys K)))"
proof (induction dbg Encode S kp i kb rule: IncrementEncodedKey_loop.induct)
  case (1 dbg Encode S kp i kb)
  note kp = "1.prems"(1)
  show ?case
  proof (cases "i < num_key_columns S")
    case True
    then have len: "i < length (raw_keys K)"
      using "1.prems" by simp
    have split: "take (num_key_columns S - i) (drop i (raw_keys K)) =
        raw_keys K ! i # take (num_key_columns S - (i + 1)) (drop (i + 1) (raw_keys K))"
    proof -
      have d: "drop i (raw_keys K) = raw_keys K ! i # drop (i + 1) (raw_keys K)"
        using len by (simp add: Cons_nth_drop_Suc)
      have n: "num_key_columns S - i = Suc (num_key_columns S - (i + 1))"
        using True by simp
      show ?thesis
        unfolding d n by simp
    qed
    show ?thesis
    proof (cases "AddColumnKey dbg Encode kb (raw_keys K ! i)")
      case (Inl f)
      then show ?thesis
        using True len kp by (subst IncrementEncodedKey_loop.simps) (simp add: split)
    next
      case (Inr kb1)
      have "IncrementEncodedKey_loop dbg Encode S kp (i + 1) kb1 =
          AddColumnKeys dbg Encode kb1
            (take (num_key_columns S - (i + 1)) (drop (i + 1) (raw_keys K)))"
        using True "1.prems"(3) by (intro "1.IH" [OF True kp len Inr kp]) simp_all
      then show ?thesis
        using True len Inr kp by (subst IncrementEncodedKey_loop.simps) (simp add: split)
    qed
  next
    case False
    then show ?thesis
      by (subst IncrementEncodedKey_loop.simps) simp
  qed
qed

lemma loop_complete:
  "i \<le> num_key_columns S \<Longrightarrow> num_key_columns S \<le> length (raw_keys K) \<Longrightarrow>
   IncrementEncodedKey_loop dbg Encode S (Some K) i kb =
     AddColumnKeys dbg Encode kb (take (num_key_columns S - i) (drop i (raw_keys K)))"
  by (rule loop_complete_aux) simp_all

lemma loop_prefix_aux:
  "kp = Some K \<Longrightarrow> i \<le> length (raw_keys K) \<Longrightarrow> length (raw_keys K) < num_key_columns S \<Longrightarrow>
   IncrementEncodedKey_loop dbg Encode S kp i kb =
     (case AddColumnKeys dbg Encode kb (drop i (raw_keys K)) of
        Inl f \<Rightarrow> Inl f
      | Inr kb1 \<Rightarrow> Inl OutOfRange)"
proof (induction dbg Encode S kp i kb rule: IncrementEncodedKey_loop.induct)
  case (1 dbg Encode S kp i kb)
  note kp = "1.prems"(1)
  have lt: "i < num_key_columns S"
    using "1.prems" by simp
  show ?case
  proof (cases "i < length (raw_keys K)")
    case True
    have split: "drop i (raw_keys K) = raw_keys K ! i # drop (i + 1) (raw_keys K)"
      using True by (simp add: Cons_nth_drop_Suc)
    show ?thesis
    proof (cases "AddColumnKey dbg Encode kb (raw_keys K ! i)")
      case (Inl f)
      then show ?thesis
        using True lt kp by (subst IncrementEncodedKey_loop.simps) (simp add: split)
    next
      case (Inr kb1)
      have "IncrementEncodedKey_loop dbg Encode S kp (i + 1) kb1 =
          (case AddColumnKeys dbg Encode kb1 (drop (i + 1) (raw_keys K)) of
             Inl f \<Rightarrow> Inl f
           | Inr kb2 \<Rightarrow> Inl OutOfRange)"
        using True "1.prems"(3) by (intro "1.IH" [OF lt kp True Inr kp]) simp_all
      then show ?thesis
        using True lt Inr kp by (subst IncrementEncodedKey_loop.simps) (simp add: split)
    qed
  next
    case False
    then have "drop i (raw_keys K) = []"
      by simp
    then show ?thesis
      using False lt kp by (subst IncrementEncodedKey_loop.simps) simp
  qed
qed

lemma loop_prefix:
  "i \<le> length (raw_keys K) \<Longrightarrow> length (raw_keys K) < num_key_columns S \<Longrightarrow>
   IncrementEncodedKey_loop dbg Encode S (Some K) i kb =
     (case AddColumnKeys dbg Encode kb (drop i (raw_keys K)) of
        Inl f \<Rightarrow> Inl f
      | Inr kb1 \<Rightarrow> Inl OutOfRange)"
  by (rule loop_prefix_aux) simp_all

lemma DCHECK_EQ_passes:
  "num_key_cols K = num_key_columns S \<Longrightarrow> DCHECK_EQ_num_key_columns dbg (Some K) S = Inr ()"
  by (simp add: DCHECK_EQ_num_key_columns_def)

lemma fresh_builder_columns:
  assumes "schema_ok dbg S" and "length rs \<le> num_key_columns S"
  shows "AddColumnKeys dbg Encode (EncodedKeyBuilder S) rs =
     Inr \<lparr>kb_schema = S, kb_encoded_key = encode_columns Encode S 0 rs [],
          kb_num_key_cols = num_key_columns S, kb_idx = length rs, kb_raw_keys = rs\<rparr>"
proof -
  have "AddColumnKeys dbg Encode (EncodedKeyBuilder S) rs =
     Inr ((EncodedKeyBuilder S)\<lparr>kb_encoded_key :=
               encode_columns Encode (kb_schema (EncodedKeyBuilder S))
                 (kb_idx (EncodedKeyBuilder S)) rs (kb_encoded_key (EncodedKeyBuilder S)),
            kb_raw_keys := kb_raw_keys (EncodedKeyBuilder S) @ rs,
            kb_idx := kb_idx (EncodedKeyBuilder S) + length rs\<rparr>)"
    using assms by (intro AddColumnKeys_ok) (simp_all add: EncodedKeyBuilder_def)
  then show ?thesis
    by (simp add: EncodedKeyBuilder_def)
qed

lemma BuildSuccessorEncodedKey_cases:
  assumes "Adv (kb_encoded_key kb) = (advanced, fs)"
    and "\<not> dbg \<or> length (kb_raw_keys kb) \<le> kb_num_key_cols kb"
  shows "BuildSuccessorEncodedKey dbg Adv kb =
     (if advanced \<and> kb_idx kb \<noteq> 0
      then Inr (Some \<lparr>data = fs, encoded_key = fs, raw_keys = kb_raw_keys kb,
                       num_key_cols = kb_num_key_cols kb\<rparr>,
                kb\<lparr>kb_encoded_key := [], kb_raw_keys := [], kb_idx := 0\<rparr>)
      else Inr (None, kb\<lparr>kb_encoded_key := fs\<rparr>))"
  using assms
  by (auto simp add: BuildSuccessorEncodedKey_def BuildEncodedKey_def EncodedKey_new_ok Let_def)

lemma IncrementEncodedKey_complete_eq:
  assumes "schema_ok dbg S"
    and "num_key_cols K = num_key_columns S"
    and "length (raw_keys K) = num_key_columns S"
  shows "IncrementEncodedKey dbg Encode Adv S (Some K) =
     (case Adv (encode_columns Encode S 0 (raw_keys K) []) of
        (advanced, fs) \<Rightarrow>
          if advanced \<and> num_key_columns S \<noteq> 0
          then Inr (OK, Some \<lparr>data = fs, encoded_key = fs, raw_keys = raw_keys K,
                               num_key_cols = num_key_columns S\<rparr>)
          else Inr (IllegalState ''No lexicographically greater key exists'', Some K))"
proof -
  let ?kb = "\<lparr>kb_schema = S, kb_encoded_key = encode_columns Encode S 0 (raw_keys K) [],
          kb_num_key_cols = num_key_columns S, kb_idx = length (raw_keys K),
          kb_raw_keys = raw_keys K\<rparr>"
  have loop: "IncrementEncodedKey_loop dbg Encode S (Some K) 0 (EncodedKeyBuilder S) = Inr ?kb"
    using assms by (simp add: loop_complete fresh_builder_columns)
  obtain advanced fs where adv: "Adv (encode_columns Encode S 0 (raw_keys K) []) = (advanced, fs)"
    by (cases "Adv (encode_columns Encode S 0 (raw_keys K) [])")
  have "BuildSuccessorEncodedKey dbg Adv ?kb =
     (if advanced \<and> kb_idx ?kb \<noteq> 0
      then Inr (Some \<lparr>data = fs, encoded_key = fs, raw_keys = kb_raw_keys ?kb,
                       num_key_cols = kb_num_key_cols ?kb\<rparr>,
                ?kb\<lparr>kb_encoded_key := [], kb_raw_keys := [], kb_idx := 0\<rparr>)
      else Inr (None, ?kb\<lparr>kb_encoded_key := fs\<rparr>))"
    using adv assms by (intro BuildSuccessorEncodedKey_cases) simp_all
  then show ?thesis
    using assms by (simp add: IncrementEncodedKey_def DCHECK_EQ_passes Let_def loop adv)
qed

lemma IncrementEncodedKey_prefix_eq:
  assumes "schema_ok dbg S"
    and "num_key_cols K = num_key_columns S"
    and "length (raw_keys K) < num_key_columns S"
  shows "IncrementEncodedKey dbg Encode Adv S (Some K) = Inl OutOfRange"
proof -
  have "AddColumnKeys dbg Encode (EncodedKeyBuilder S) (raw_keys K) =
     Inr \<lparr>kb_schema = S, kb_encoded_key = encode_columns Encode S 0 (raw_keys K) [],
          kb_num_key_cols = num_key_columns S, kb_idx = length (raw_keys K),
          kb_raw_keys = raw_keys K\<rparr>"
    using assms by (intro fresh_builder_columns) simp_all
  then have "IncrementEncodedKey_loop dbg Encode S (Some K) 0 (EncodedKeyBuilder S) =
      Inl OutOfRange"
    using assms by (simp add: loop_prefix)
  then show ?thesis
    using assms by (simp add: IncrementEncodedKey_def DCHECK_EQ_passes Let_def)
qed


lemma ab_schema_ok: "schema_ok dbg ab_schema"
  by (simp add: schema_ok_def ab_schema_def)

subsection \<open>IncrementEncodedKey on a complete key\<close>

text \<open>
  C1. Take a schema whose key columns exist (and, in a build with assertions, are not
  nullable: \<open>schema_ok\<close>), and a complete key: its column count is the schema's and
  it holds a raw value for every key column. Then
  \<^verbatim>\<open>IncrementEncodedKey\<close> does not fault, and there are two outcomes. Either it returns
  \<open>OK\<close> and the slot holds the successor key: its bytes are what
  \<^verbatim>\<open>AdvanceToSuccessor\<close> made of the re-encoding of the key's raw values, its raw
  values and column count are the key's. Or it returns \<open>IllegalState\<close> ("No
  lexicographically greater key exists") and the slot holds the key as it was: same
  bytes, same raw values, same column count. The second outcome is taken when the
  transform reports no successor (or the schema has no key column).
\<close>

theorem IncrementEncodedKey_successor_or_unmodified:
  assumes "schema_ok dbg S"
    and "num_key_cols K = num_key_columns S"
    and "length (raw_keys K) = num_key_columns S"
  shows "IncrementEncodedKey dbg Encode Adv S (Some K) =
     (case Adv (encode_columns Encode S 0 (raw_keys K) []) of
        (advanced, fs) \<Rightarrow>
          if advanced \<and> num_key_columns S \<noteq> 0
          then Inr (OK, Some \<lparr>data = fs, encoded_key = fs, raw_keys = raw_keys K,
                               num_key_cols = num_key_columns S\<rparr>)
          else Inr (IllegalState ''No lexicographically greater key exists'', Some K))"
  using assms by (rule IncrementEncodedKey_complete_eq)

theorem IncrementEncodedKey_successor_or_unmodified_witness:
  "IncrementEncodedKey True spy_Encode AdvanceToSuccessor ab_schema (Some ab_key) =
     Inr (OK, Some \<lparr>data = [7, 0, 9, 2], encoded_key = [7, 0, 9, 2], raw_keys = [7, 9],
                     num_key_cols = 2\<rparr>) \<and>
   IncrementEncodedKey True max_Encode AdvanceToSuccessor ab_schema (Some ab_key) =
     Inr (IllegalState ''No lexicographically greater key exists'', Some ab_key)"
proof -
  have n: "num_key_cols ab_key = num_key_columns ab_schema"
    and l: "length (raw_keys ab_key) = num_key_columns ab_schema"
    by (simp_all add: ab_key_def ab_schema_def)
  have spy: "AdvanceToSuccessor (encode_columns spy_Encode ab_schema 0 (raw_keys ab_key) []) =
      (True, [7, 0, 9, 2])"
    by (simp add: ab_key_def ab_schema_def spy_Encode_def AdvanceToSuccessor_def)
  have top: "AdvanceToSuccessor (encode_columns max_Encode ab_schema 0 (raw_keys ab_key) []) =
      (False, [0, 0])"
    by (simp add: ab_key_def ab_schema_def max_Encode_def AdvanceToSuccessor_def)
  show ?thesis
    using IncrementEncodedKey_successor_or_unmodified
        [where dbg = True and Encode = spy_Encode and Adv = AdvanceToSuccessor,
         OF ab_schema_ok n l]
      IncrementEncodedKey_successor_or_unmodified
        [where dbg = True and Encode = max_Encode and Adv = AdvanceToSuccessor,
         OF ab_schema_ok n l]
    by (simp add: spy top) (simp add: ab_key_def ab_schema_def)
qed

subsection \<open>The flag passed to the codec\<close>

text \<open>
  C7. A builder bound to a schema with \<open>n\<close> key columns (\<open>schema_ok\<close>), its cursor
  at \<open>i\<close>, is given values by \<^verbatim>\<open>AddColumnKey\<close>, each call with the cursor below
  \<open>n\<close>. Whatever the codec is, every call succeeds and the buffer is the one the
  codec produces when called, for the columns \<open>i, i + 1, ...\<close> in turn, with the
  column's type, the value, and a flag that is true for column \<open>n - 1\<close> and false
  for every earlier column (\<open>encode_columns\<close>). The values are appended to the raw
  values and the cursor advances by their number.
\<close>

theorem AddColumnKey_is_last_only_for_last_column:
  assumes "schema_ok dbg (kb_schema kb)"
    and "kb_num_key_cols kb = num_key_columns (kb_schema kb)"
    and "kb_idx kb + length rs \<le> kb_num_key_cols kb"
  shows "AddColumnKeys dbg Encode kb rs =
     Inr (kb\<lparr>kb_encoded_key :=
               encode_columns Encode (kb_schema kb) (kb_idx kb) rs (kb_encoded_key kb),
            kb_raw_keys := kb_raw_keys kb @ rs,
            kb_idx := kb_idx kb + length rs\<rparr>)"
  using assms by (rule AddColumnKeys_ok)

theorem AddColumnKey_is_last_only_for_last_column_witness:
  "AddColumnKeys True spy_Encode (EncodedKeyBuilder ab_schema) [7, 9] =
     Inr \<lparr>kb_schema = ab_schema, kb_encoded_key = [7, 0, 9, 1], kb_num_key_cols = 2,
          kb_idx = 2, kb_raw_keys = [7, 9]\<rparr>"
proof -
  have s: "schema_ok True (kb_schema (EncodedKeyBuilder ab_schema))"
    by (simp add: EncodedKeyBuilder_def ab_schema_ok)
  have n: "kb_num_key_cols (EncodedKeyBuilder ab_schema) =
      num_key_columns (kb_schema (EncodedKeyBuilder ab_schema))"
    by (simp add: EncodedKeyBuilder_def)
  have l: "kb_idx (EncodedKeyBuilder ab_schema) + length [7::nat, 9]
      \<le> kb_num_key_cols (EncodedKeyBuilder ab_schema)"
    by (simp add: EncodedKeyBuilder_def ab_schema_def)
  show ?thesis
    using AddColumnKey_is_last_only_for_last_column [where Encode = spy_Encode, OF s n l]
    by (simp add: EncodedKeyBuilder_def spy_Encode_def) (simp add: ab_schema_def)
qed

subsection \<open>IncrementEncodedKey on a prefix key\<close>

text \<open>
  C9. Take a schema whose key columns exist (and, in a build with assertions, are not
  nullable: \<open>schema_ok\<close>), and a key that passes the check of
  \<^verbatim>\<open>IncrementEncodedKey\<close> (its column count is the schema's) and holds at most that
  many raw values. The loop reads the raw values at every index below the schema's
  number of key columns: the call reads past the end of the raw values exactly when
  the key is a prefix key, holding fewer raw values than the schema has key columns.
  The check does not exclude such a key.
\<close>

theorem IncrementEncodedKey_out_of_range_iff_prefix:
  assumes "schema_ok dbg S"
    and "num_key_cols K = num_key_columns S"
    and "length (raw_keys K) \<le> num_key_cols K"
  shows "IncrementEncodedKey dbg Encode Adv S (Some K) = Inl OutOfRange
     \<longleftrightarrow> length (raw_keys K) < num_key_columns S"
proof (cases "length (raw_keys K) < num_key_columns S")
  case True
  then show ?thesis
    using assms by (simp add: IncrementEncodedKey_prefix_eq)
next
  case False
  then have "length (raw_keys K) = num_key_columns S"
    using assms by simp
  then have "IncrementEncodedKey dbg Encode Adv S (Some K) \<noteq> Inl OutOfRange"
    using assms by (simp add: IncrementEncodedKey_complete_eq split: prod.splits)
  then show ?thesis
    using False by simp
qed

theorem IncrementEncodedKey_out_of_range_iff_prefix_witness:
  "num_key_cols a_prefix_key = num_key_columns ab_schema \<and>
   length (raw_keys a_prefix_key) = 1 \<and>
   IncrementEncodedKey True spy_Encode AdvanceToSuccessor ab_schema (Some a_prefix_key) =
     Inl OutOfRange"
proof -
  have n: "num_key_cols a_prefix_key = num_key_columns ab_schema"
    and l: "length (raw_keys a_prefix_key) \<le> num_key_cols a_prefix_key"
    by (simp_all add: a_prefix_key_def ab_schema_def)
  show ?thesis
    using IncrementEncodedKey_out_of_range_iff_prefix
        [where dbg = True and Encode = spy_Encode and Adv = AdvanceToSuccessor,
         OF ab_schema_ok n l]
    by (simp add: a_prefix_key_def ab_schema_def)
qed

subsection \<open>BuildEncodedKey\<close>

text \<open>
  C5. \<^verbatim>\<open>BuildEncodedKey\<close> returns absent exactly when the cursor is \<open>0\<close>, that is when
  no column has been added, and then the builder is as it was. Otherwise it returns a
  new key that holds the builder's buffer, its raw values and its column count, and
  leaves the builder with the cursor at \<open>0\<close>, in the state \<^verbatim>\<open>Reset\<close> would leave it
  in: the buffer and the raw values have moved into the key. This holds for every
  builder of a build without assertions; in a build with them, for every builder that
  holds no more raw values than it has key columns, which the constructor of the key
  asserts.
\<close>

theorem BuildEncodedKey_absent_iff_no_column:
  assumes "dbg \<longrightarrow> length (kb_raw_keys kb) \<le> kb_num_key_cols kb"
  shows "\<exists>ret kb1. BuildEncodedKey dbg kb = Inr (ret, kb1) \<and>
     (ret = None \<longleftrightarrow> kb_idx kb = 0) \<and>
     (kb_idx kb = 0 \<longrightarrow> kb1 = kb) \<and>
     (kb_idx kb \<noteq> 0 \<longrightarrow>
        ret = Some \<lparr>data = kb_encoded_key kb, encoded_key = kb_encoded_key kb,
                     raw_keys = kb_raw_keys kb, num_key_cols = kb_num_key_cols kb\<rparr> \<and>
        kb_idx kb1 = 0 \<and> kb1 = Reset kb)"
proof (cases "kb_idx kb = 0")
  case True
  then show ?thesis
    by (simp add: BuildEncodedKey_def)
next
  case False
  have "EncodedKey_new dbg (kb_encoded_key kb) (kb_raw_keys kb) (kb_num_key_cols kb) =
     Inr (\<lparr>data = kb_encoded_key kb, encoded_key = kb_encoded_key kb,
           raw_keys = kb_raw_keys kb, num_key_cols = kb_num_key_cols kb\<rparr>, [], [])"
    using assms by (intro EncodedKey_new_ok) blast
  then show ?thesis
    using False by (simp add: BuildEncodedKey_def Reset_def)
qed

theorem BuildEncodedKey_absent_iff_no_column_witness:
  "BuildEncodedKey True a_builder = Inr (Some a_prefix_key, Reset a_builder) \<and>
   kb_idx (Reset a_builder) = 0 \<and>
   BuildEncodedKey True (EncodedKeyBuilder ab_schema) = Inr (None, EncodedKeyBuilder ab_schema)"
proof -
  have a: "True \<longrightarrow> length (kb_raw_keys a_builder) \<le> kb_num_key_cols a_builder"
    by (simp add: a_builder_def)
  have e: "True \<longrightarrow> length (kb_raw_keys (EncodedKeyBuilder ab_schema))
      \<le> kb_num_key_cols (EncodedKeyBuilder ab_schema)"
    by (simp add: EncodedKeyBuilder_def)
  have i: "kb_idx a_builder \<noteq> 0" "kb_idx (EncodedKeyBuilder ab_schema) = 0"
    by (simp_all add: a_builder_def EncodedKeyBuilder_def)
  show ?thesis
    using BuildEncodedKey_absent_iff_no_column [OF a] BuildEncodedKey_absent_iff_no_column [OF e] i
    by (auto simp add: a_builder_def a_prefix_key_def Reset_def)
qed

subsection \<open>BuildSuccessorEncodedKey\<close>

text \<open>
  C2. For every builder and every transform, \<^verbatim>\<open>BuildSuccessorEncodedKey\<close> first applies
  the transform to the buffer. When the transform reports no successor, the call
  returns absent and does not finalize: no key is made, and the builder keeps its
  cursor and its raw values (its buffer is what the transform left). When the transform
  reports a successor, the call is \<^verbatim>\<open>BuildEncodedKey\<close> on the builder with the
  transformed buffer.
\<close>

theorem BuildSuccessorEncodedKey_advances_then_finalizes:
  "(\<not> fst (Adv (kb_encoded_key kb)) \<longrightarrow>
      BuildSuccessorEncodedKey dbg Adv kb =
        Inr (None, kb\<lparr>kb_encoded_key := snd (Adv (kb_encoded_key kb))\<rparr>)) \<and>
   (fst (Adv (kb_encoded_key kb)) \<longrightarrow>
      BuildSuccessorEncodedKey dbg Adv kb =
        BuildEncodedKey dbg (kb\<lparr>kb_encoded_key := snd (Adv (kb_encoded_key kb))\<rparr>))"
  by (simp add: BuildSuccessorEncodedKey_def split: prod.splits)

text \<open>
  The transform as the spec describes it reports no successor on a buffer whose bytes
  are all at their maximum.
\<close>

lemma carry_all_max: "\<forall>b \<in> set bs. b = 0xFF \<Longrightarrow> \<not> fst (carry bs)"
  by (induction bs) (auto split: prod.splits)

lemma AdvanceToSuccessor_exhausted:
  "\<forall>b \<in> set fs. b = 0xFF \<Longrightarrow> \<not> fst (AdvanceToSuccessor fs)"
  using carry_all_max [of "rev fs"] by (auto simp add: AdvanceToSuccessor_def split: prod.splits)

theorem BuildSuccessorEncodedKey_advances_then_finalizes_witness:
  "\<not> fst (AdvanceToSuccessor (kb_encoded_key ab_builder)) \<and>
   BuildSuccessorEncodedKey True AdvanceToSuccessor ab_builder =
     Inr (None, ab_builder\<lparr>kb_encoded_key := snd (AdvanceToSuccessor [0xFF, 0xFF])\<rparr>) \<and>
   kb_idx (ab_builder\<lparr>kb_encoded_key := snd (AdvanceToSuccessor [0xFF, 0xFF])\<rparr>) = 2 \<and>
   fst (AdvanceToSuccessor (kb_encoded_key a_builder)) \<and>
   BuildSuccessorEncodedKey True AdvanceToSuccessor a_builder =
     Inr (Some \<lparr>data = [7, 1], encoded_key = [7, 1], raw_keys = [7], num_key_cols = 2\<rparr>,
          Reset a_builder)"
proof -
  have top: "\<not> fst (AdvanceToSuccessor (kb_encoded_key ab_builder))"
    by (simp add: ab_builder_def AdvanceToSuccessor_def)
  have nxt: "AdvanceToSuccessor (kb_encoded_key a_builder) = (True, [7, 1])"
    by (simp add: a_builder_def AdvanceToSuccessor_def)
  have fin: "BuildEncodedKey True (a_builder\<lparr>kb_encoded_key := [7, 1]\<rparr>) =
     Inr (Some \<lparr>data = [7, 1], encoded_key = [7, 1], raw_keys = [7], num_key_cols = 2\<rparr>,
          Reset a_builder)"
    by (simp add: BuildEncodedKey_def EncodedKey_new_def a_builder_def Reset_def)
  show ?thesis
    using BuildSuccessorEncodedKey_advances_then_finalizes [of AdvanceToSuccessor ab_builder True]
      BuildSuccessorEncodedKey_advances_then_finalizes [of AdvanceToSuccessor a_builder True]
      top nxt fin
    by (simp add: ab_builder_def)
qed


subsection \<open>The cursor counts the raw values\<close>

lemma AddColumnKey_appends:
  "AddColumnKey dbg Encode kb r = Inr kb1 \<Longrightarrow>
   kb_raw_keys kb1 = kb_raw_keys kb @ [r] \<and> kb_idx kb1 = kb_idx kb + 1"
  by (auto simp add: AddColumnKey_def Let_def split: if_splits sum.splits)

lemma BuildEncodedKey_moves:
  "BuildEncodedKey dbg kb = Inr (Some k, kb1) \<Longrightarrow>
   kb_idx kb1 = 0 \<and> kb_raw_keys kb1 = [] \<and> raw_keys k = kb_raw_keys kb"
  by (auto simp add: BuildEncodedKey_def EncodedKey_new_def Let_def split: if_splits)

lemma BuildEncodedKey_absent_same:
  "BuildEncodedKey dbg kb = Inr (None, kb1) \<Longrightarrow> kb1 = kb"
  by (auto simp add: BuildEncodedKey_def EncodedKey_new_def Let_def split: if_splits)

lemma BuildEncodedKey_cursor_inv:
  "cursor_inv kb \<Longrightarrow> BuildEncodedKey dbg kb = Inr (ret, kb1) \<Longrightarrow> cursor_inv kb1"
  by (cases ret)
    (auto simp add: cursor_inv_def dest: BuildEncodedKey_moves BuildEncodedKey_absent_same)

lemma BuildSuccessorEncodedKey_cursor_inv:
  assumes "cursor_inv kb" and "BuildSuccessorEncodedKey dbg Adv kb = Inr (ret, kb1)"
  shows "cursor_inv kb1"
proof (cases "fst (Adv (kb_encoded_key kb))")
  case True
  then have "BuildEncodedKey dbg (kb\<lparr>kb_encoded_key := snd (Adv (kb_encoded_key kb))\<rparr>) =
      Inr (ret, kb1)"
    using assms(2) by (simp add: BuildSuccessorEncodedKey_def split: prod.splits)
  moreover have "cursor_inv (kb\<lparr>kb_encoded_key := snd (Adv (kb_encoded_key kb))\<rparr>)"
    using assms(1) by (simp add: cursor_inv_def)
  ultimately show ?thesis
    by (rule BuildEncodedKey_cursor_inv [rotated])
next
  case False
  then have "kb1 = kb\<lparr>kb_encoded_key := snd (Adv (kb_encoded_key kb))\<rparr>"
    using assms(2) by (simp add: BuildSuccessorEncodedKey_def split: prod.splits)
  then show ?thesis
    using assms(1) by (simp add: cursor_inv_def)
qed

text \<open>
  C6. The invariant \<open>cursor_inv\<close> (the cursor equals the number of raw values held)
  holds of a builder as constructed, and every operation that returns keeps it:
  \<^verbatim>\<open>AddColumnKey\<close> appends one raw value and advances the cursor by one;
  \<^verbatim>\<open>Reset\<close> sets the cursor to \<open>0\<close> and empties the raw values; a
  \<^verbatim>\<open>BuildEncodedKey\<close> that returns a key sets the cursor to \<open>0\<close> and leaves the raw
  values empty, the key holding them; \<^verbatim>\<open>BuildEncodedKey\<close> and
  \<^verbatim>\<open>BuildSuccessorEncodedKey\<close> keep it whatever they return; \<^verbatim>\<open>AssignCopy\<close> copies
  cursor and raw values together from the other builder.
\<close>

theorem cursor_inv_maintained:
  "cursor_inv (EncodedKeyBuilder schema) \<and>
   (cursor_inv kb \<longrightarrow>
      (\<forall>kb1. AddColumnKey dbg Encode kb r = Inr kb1 \<longrightarrow>
         cursor_inv kb1 \<and> kb_raw_keys kb1 = kb_raw_keys kb @ [r] \<and>
         kb_idx kb1 = kb_idx kb + 1)) \<and>
   (cursor_inv (Reset kb) \<and> kb_idx (Reset kb) = 0 \<and> kb_raw_keys (Reset kb) = []) \<and>
   (\<forall>k kb1. BuildEncodedKey dbg kb = Inr (Some k, kb1) \<longrightarrow>
      cursor_inv kb1 \<and> kb_idx kb1 = 0 \<and> kb_raw_keys kb1 = [] \<and>
      raw_keys k = kb_raw_keys kb) \<and>
   (cursor_inv kb \<longrightarrow>
      (\<forall>ret kb1. BuildEncodedKey dbg kb = Inr (ret, kb1) \<longrightarrow> cursor_inv kb1)) \<and>
   (cursor_inv kb \<longrightarrow>
      (\<forall>ret kb1. BuildSuccessorEncodedKey dbg Adv kb = Inr (ret, kb1) \<longrightarrow> cursor_inv kb1)) \<and>
   (cursor_inv other \<longrightarrow>
      (\<forall>kb1. AssignCopy dbg kb other = Inr kb1 \<longrightarrow>
         cursor_inv kb1 \<and> kb_idx kb1 = kb_idx other \<and>
         kb_raw_keys kb1 = kb_raw_keys other))"
proof -
  have ctor: "cursor_inv (EncodedKeyBuilder schema)"
    by (simp add: cursor_inv_def EncodedKeyBuilder_def)
  have add: "cursor_inv kb \<longrightarrow>
      (\<forall>kb1. AddColumnKey dbg Encode kb r = Inr kb1 \<longrightarrow>
         cursor_inv kb1 \<and> kb_raw_keys kb1 = kb_raw_keys kb @ [r] \<and>
         kb_idx kb1 = kb_idx kb + 1)"
    by (auto simp add: cursor_inv_def dest: AddColumnKey_appends)
  have reset: "cursor_inv (Reset kb) \<and> kb_idx (Reset kb) = 0 \<and> kb_raw_keys (Reset kb) = []"
    by (simp add: cursor_inv_def Reset_def)
  have build: "\<forall>k kb1. BuildEncodedKey dbg kb = Inr (Some k, kb1) \<longrightarrow>
      cursor_inv kb1 \<and> kb_idx kb1 = 0 \<and> kb_raw_keys kb1 = [] \<and>
      raw_keys k = kb_raw_keys kb"
    by (auto simp add: cursor_inv_def dest: BuildEncodedKey_moves)
  have build_any: "cursor_inv kb \<longrightarrow>
      (\<forall>ret kb1. BuildEncodedKey dbg kb = Inr (ret, kb1) \<longrightarrow> cursor_inv kb1)"
    by (blast intro: BuildEncodedKey_cursor_inv)
  have succ: "cursor_inv kb \<longrightarrow>
      (\<forall>ret kb1. BuildSuccessorEncodedKey dbg Adv kb = Inr (ret, kb1) \<longrightarrow> cursor_inv kb1)"
    by (blast intro: BuildSuccessorEncodedKey_cursor_inv)
  have copy: "cursor_inv other \<longrightarrow>
      (\<forall>kb1. AssignCopy dbg kb other = Inr kb1 \<longrightarrow>
         cursor_inv kb1 \<and> kb_idx kb1 = kb_idx other \<and>
         kb_raw_keys kb1 = kb_raw_keys other)"
    by (auto simp add: cursor_inv_def AssignCopy_def split: if_splits)
  from ctor add reset build build_any succ copy show ?thesis
    by blast
qed


theorem cursor_inv_maintained_witness:
  "cursor_inv (EncodedKeyBuilder ab_schema) \<and>
   cursor_inv a_builder \<and>
   AddColumnKey True spy_Encode a_builder 9 =
     Inr \<lparr>kb_schema = ab_schema, kb_encoded_key = [7, 0, 9, 1], kb_num_key_cols = 2,
          kb_idx = 2, kb_raw_keys = [7, 9]\<rparr> \<and>
   cursor_inv \<lparr>kb_schema = ab_schema, kb_encoded_key = [7, 0, 9, 1], kb_num_key_cols = 2,
          kb_idx = 2, kb_raw_keys = [7, 9]\<rparr> \<and>
   cursor_inv (Reset a_builder) \<and>
   BuildEncodedKey True a_builder = Inr (Some a_prefix_key, Reset a_builder) \<and>
   BuildSuccessorEncodedKey True AdvanceToSuccessor ab_builder =
     Inr (None, ab_builder\<lparr>kb_encoded_key := [0, 0]\<rparr>) \<and>
   cursor_inv (ab_builder\<lparr>kb_encoded_key := [0, 0]\<rparr>) \<and>
   AssignCopy True (EncodedKeyBuilder ab_schema) a_builder = Inr a_builder \<and>
   kb_idx a_builder = length (kb_raw_keys a_builder)"
proof -
  have inv: "cursor_inv a_builder" "cursor_inv ab_builder"
    by (simp_all add: cursor_inv_def a_builder_def ab_builder_def)
  have add: "AddColumnKey True spy_Encode a_builder 9 =
     Inr \<lparr>kb_schema = ab_schema, kb_encoded_key = [7, 0, 9, 1], kb_num_key_cols = 2,
          kb_idx = 2, kb_raw_keys = [7, 9]\<rparr>"
    by (simp add: AddColumnKey_def column_def a_builder_def ab_schema_def spy_Encode_def)
  have build: "BuildEncodedKey True a_builder = Inr (Some a_prefix_key, Reset a_builder)"
    by (simp add: BuildEncodedKey_def EncodedKey_new_def a_builder_def a_prefix_key_def
        Reset_def)
  have succ: "BuildSuccessorEncodedKey True AdvanceToSuccessor ab_builder =
     Inr (None, ab_builder\<lparr>kb_encoded_key := [0, 0]\<rparr>)"
    by (simp add: BuildSuccessorEncodedKey_def AdvanceToSuccessor_def ab_builder_def)
  have copy: "AssignCopy True (EncodedKeyBuilder ab_schema) a_builder = Inr a_builder"
    by (simp add: AssignCopy_def Schema_Equals_def EncodedKeyBuilder_def a_builder_def
        ab_schema_def)
  note thm_a = cursor_inv_maintained
    [of ab_schema a_builder True spy_Encode 9 AdvanceToSuccessor a_builder]
  note thm_ab = cursor_inv_maintained
    [of ab_schema ab_builder True spy_Encode 9 AdvanceToSuccessor a_builder]
  have c1: "cursor_inv (EncodedKeyBuilder ab_schema)"
    using thm_a by blast
  have c2: "cursor_inv \<lparr>kb_schema = ab_schema, kb_encoded_key = [7, 0, 9, 1],
      kb_num_key_cols = 2, kb_idx = 2, kb_raw_keys = [7, 9]\<rparr>"
    using thm_a inv(1) add by blast
  have c3: "cursor_inv (Reset a_builder)"
    using thm_a by blast
  have c4: "cursor_inv (ab_builder\<lparr>kb_encoded_key := [0, 0]\<rparr>)"
    using thm_ab inv(2) succ by blast
  have c5: "kb_idx a_builder = length (kb_raw_keys a_builder)"
    using inv(1) by (simp add: cursor_inv_def)
  show ?thesis
    by (intro conjI) (fact c1 inv(1) add c2 c3 build succ c4 copy c5)+
qed

subsection \<open>DecodeEncodedString\<close>

lemma DecodeEncodedString_loop_result:
  "DecodeEncodedString_loop S buf i raw = Inr raw1 \<Longrightarrow>
   length raw = num_key_columns S \<Longrightarrow>
   length raw1 = num_key_columns S \<and>
   (\<forall>j < num_key_columns S.
      (j < i \<longrightarrow> raw1 ! j = raw ! j) \<and>
      (i \<le> j \<longrightarrow> column_offset S j = Inr (col_offsets S ! j) \<and>
                 raw1 ! j = buf + col_offsets S ! j))"
proof (induction S buf i raw rule: DecodeEncodedString_loop.induct)
  case (1 S buf i raw)
  show ?case
  proof (cases "i < num_key_columns S")
    case True
    from "1.prems"(1) True obtain off where off: "column_offset S i = Inr off"
      and rec: "DecodeEncodedString_loop S buf (i + 1) (raw[i := buf + off]) = Inr raw1"
      by (subst (asm) DecodeEncodedString_loop.simps) (auto split: sum.splits)
    have off_eq: "off = col_offsets S ! i"
      using off by (auto simp add: column_offset_def split: if_splits)
    have ih: "length raw1 = num_key_columns S \<and>
      (\<forall>j < num_key_columns S.
         (j < i + 1 \<longrightarrow> raw1 ! j = (raw[i := buf + off]) ! j) \<and>
         (i + 1 \<le> j \<longrightarrow> column_offset S j = Inr (col_offsets S ! j) \<and>
                    raw1 ! j = buf + col_offsets S ! j))"
      using True off rec "1.prems"(2) by (intro "1.IH") simp_all
    show ?thesis
    proof (intro conjI allI impI)
      show "length raw1 = num_key_columns S"
        using ih by simp
    next
      fix j assume "j < num_key_columns S" "j < i"
      then show "raw1 ! j = raw ! j"
        using ih by simp
    next
      fix j assume j: "j < num_key_columns S" "i \<le> j"
      show "column_offset S j = Inr (col_offsets S ! j)"
      proof (cases "j = i")
        case True
        then show ?thesis using off off_eq by simp
      next
        case False
        then show ?thesis using j ih by simp
      qed
    next
      fix j assume j: "j < num_key_columns S" "i \<le> j"
      show "raw1 ! j = buf + col_offsets S ! j"
      proof (cases "j = i")
        case True
        then show ?thesis using j ih off_eq "1.prems"(2) by simp
      next
        case False
        then show ?thesis using j ih by simp
      qed
    qed
  next
    case False
    then have "raw1 = raw"
      using "1.prems"(1) by (subst (asm) DecodeEncodedString_loop.simps) simp
    then show ?thesis
      using False "1.prems"(2) by simp
  qed
qed

lemma DecodeEncodedString_null:
  "AllocateBytes A (key_byte_size S) = (0, A1) \<Longrightarrow>
   DecodeEncodedString dbg AllocateBytes DecodeRowKey S A E result =
     Inr (RuntimeError ''OOM'', A1, result)"
  by (simp add: DecodeEncodedString_def)

lemma DecodeEncodedString_decode_error:
  "AllocateBytes A (key_byte_size S) = (buf, A1) \<Longrightarrow> buf \<noteq> 0 \<Longrightarrow>
   DecodeRowKey S E buf A1 = (s, A2) \<Longrightarrow> s \<noteq> OK \<Longrightarrow>
   DecodeEncodedString dbg AllocateBytes DecodeRowKey S A E result = Inr (s, A2, result)"
  by (simp add: DecodeEncodedString_def)

lemma DecodeEncodedString_decoded:
  "AllocateBytes A (key_byte_size S) = (buf, A1) \<Longrightarrow> buf \<noteq> 0 \<Longrightarrow>
   DecodeRowKey S E buf A1 = (OK, A2) \<Longrightarrow>
   DecodeEncodedString dbg AllocateBytes DecodeRowKey S A E result =
     (case DecodeEncodedString_loop S buf 0 (replicate (num_key_columns S) 0) of
        Inl f \<Rightarrow> Inl f
      | Inr raw \<Rightarrow>
          (case EncodedKey_new dbg E raw (num_key_columns S) of
             Inl f \<Rightarrow> Inl f
           | Inr (k, fs, rest) \<Rightarrow> Inr (OK, A2, Some k)))"
  by (simp add: DecodeEncodedString_def Let_def split: sum.splits)

lemma DecodeEncodedString_status:
  assumes "AllocateBytes A (key_byte_size S) = (buf, A1)" and "buf \<noteq> 0"
    and "DecodeRowKey S E buf A1 = (s, A2)"
    and "DecodeEncodedString dbg AllocateBytes DecodeRowKey S A E result = Inr (st, A3, r)"
  shows "st = s"
proof (cases "s = OK")
  case True
  then show ?thesis
    using assms by (auto simp add: DecodeEncodedString_decoded split: sum.splits)
next
  case False
  then show ?thesis
    using assms by (simp add: DecodeEncodedString_decode_error)
qed

text \<open>By bytes: the key a successful call leaves in the slot.\<close>

lemma DecodeEncodedString_key:
  assumes "DecodeEncodedString dbg AllocateBytes DecodeRowKey S A E result = Inr (OK, A2, r)"
  shows "\<exists>k. r = Some k \<and>
     length (raw_keys k) = num_key_columns S \<and>
     (\<forall>i < num_key_columns S. \<exists>off. column_offset S i = Inr off \<and>
        raw_keys k ! i = fst (AllocateBytes A (key_byte_size S)) + off) \<and>
     data k = E \<and> encoded_key k = E \<and> num_key_cols k = num_key_columns S"
proof -
  obtain buf A1 where alloc: "AllocateBytes A (key_byte_size S) = (buf, A1)"
    by (cases "AllocateBytes A (key_byte_size S)")
  obtain s A1' where dec: "DecodeRowKey S E buf A1 = (s, A1')"
    by (cases "DecodeRowKey S E buf A1")
  have nz: "buf \<noteq> 0"
    using assms alloc by (cases "buf = 0") (simp_all add: DecodeEncodedString_null)
  have "s = OK"
    using DecodeEncodedString_status [OF alloc nz dec assms] by simp
  then obtain raw where loop:
      "DecodeEncodedString_loop S buf 0 (replicate (num_key_columns S) 0) = Inr raw"
    and new: "\<exists>k fs rest. EncodedKey_new dbg E raw (num_key_columns S) = Inr (k, fs, rest)
      \<and> r = Some k"
    using assms alloc nz dec
    by (auto simp add: DecodeEncodedString_decoded split: sum.splits)
  have raw: "length raw = num_key_columns S \<and>
   (\<forall>j < num_key_columns S.
      (j < 0 \<longrightarrow> raw ! j = replicate (num_key_columns S) 0 ! j) \<and>
      (0 \<le> j \<longrightarrow> column_offset S j = Inr (col_offsets S ! j) \<and>
                 raw ! j = buf + col_offsets S ! j))"
    using loop by (rule DecodeEncodedString_loop_result) simp
  from new raw have "r = Some \<lparr>data = E, encoded_key = E, raw_keys = raw,
      num_key_cols = num_key_columns S\<rparr>"
    by (auto simp add: EncodedKey_new_def split: if_splits)
  then show ?thesis
    using raw alloc by simp
qed

text \<open>
  C4, as the code has it. Name the address and the arena the allocation of
  \<^verbatim>\<open>key_byte_size()\<close> bytes returns, and the status and the arena the row-key decoder
  returns on that address. If the address is null, \<^verbatim>\<open>DecodeEncodedString\<close> returns
  \<open>RuntimeError\<close> "OOM" and the slot is as it was. If it is not null and the decoder's
  status is not \<open>OK\<close>, the call returns the decoder's status unchanged and the slot is
  as it was. Whenever the call returns: with a non-null address its status is the
  decoder's; its status is \<open>RuntimeError\<close> "OOM" exactly when the address is null or
  the decoder itself returned that status; and with any status but \<open>OK\<close> the slot is
  as it was.
\<close>

theorem DecodeEncodedString_failures:
  assumes "AllocateBytes A (key_byte_size S) = (buf, A1)"
    and "DecodeRowKey S E buf A1 = (s, A2)"
  shows "(buf = 0 \<longrightarrow>
            DecodeEncodedString dbg AllocateBytes DecodeRowKey S A E result =
              Inr (RuntimeError ''OOM'', A1, result)) \<and>
         (buf \<noteq> 0 \<and> s \<noteq> OK \<longrightarrow>
            DecodeEncodedString dbg AllocateBytes DecodeRowKey S A E result =
              Inr (s, A2, result)) \<and>
         (\<forall>st A3 r. DecodeEncodedString dbg AllocateBytes DecodeRowKey S A E result =
              Inr (st, A3, r) \<longrightarrow>
            (buf \<noteq> 0 \<longrightarrow> st = s) \<and>
            (st = RuntimeError ''OOM'' \<longleftrightarrow> buf = 0 \<or> s = RuntimeError ''OOM'') \<and>
            (st \<noteq> OK \<longrightarrow> r = result))"
proof (intro conjI impI allI)
  assume "buf = 0"
  then show "DecodeEncodedString dbg AllocateBytes DecodeRowKey S A E result =
      Inr (RuntimeError ''OOM'', A1, result)"
    using assms(1) by (simp add: DecodeEncodedString_null)
next
  assume "buf \<noteq> 0 \<and> s \<noteq> OK"
  then show "DecodeEncodedString dbg AllocateBytes DecodeRowKey S A E result =
      Inr (s, A2, result)"
    using assms by (simp add: DecodeEncodedString_decode_error)
next
  fix st A3 r
  assume "DecodeEncodedString dbg AllocateBytes DecodeRowKey S A E result = Inr (st, A3, r)"
    and "buf \<noteq> 0"
  then show "st = s"
    using assms by (simp add: DecodeEncodedString_status)
next
  fix st A3 r
  assume run: "DecodeEncodedString dbg AllocateBytes DecodeRowKey S A E result =
      Inr (st, A3, r)"
  show "st = RuntimeError ''OOM'' \<longleftrightarrow> buf = 0 \<or> s = RuntimeError ''OOM''"
  proof (cases "buf = 0")
    case True
    then show ?thesis
      using run assms(1) by (simp add: DecodeEncodedString_null)
  next
    case False
    then have "st = s"
      using run assms by (simp add: DecodeEncodedString_status)
    then show ?thesis
      using False by simp
  qed
next
  fix st A3 r
  assume run: "DecodeEncodedString dbg AllocateBytes DecodeRowKey S A E result =
      Inr (st, A3, r)"
    and failed: "st \<noteq> OK"
  show "r = result"
  proof (cases "buf = 0")
    case True
    then show ?thesis
      using run assms(1) by (simp add: DecodeEncodedString_null)
  next
    case False
    then have "st = s"
      using run assms by (simp add: DecodeEncodedString_status)
    then show ?thesis
      using False failed run assms by (simp add: DecodeEncodedString_decode_error)
  qed
qed

theorem DecodeEncodedString_failures_witness:
  "DecodeEncodedString True bump_Allocate nonempty_DecodeRowKey ab_schema 50 [1, 2, 3]
      (Some ab_key) = Inr (RuntimeError ''OOM'', 50, Some ab_key) \<and>
   DecodeEncodedString True bump_Allocate nonempty_DecodeRowKey ab_schema 10 []
      (Some ab_key) = Inr (InvalidArgument ''key too short'', 30, Some ab_key) \<and>
   DecodeEncodedString True bump_Allocate oom_DecodeRowKey ab_schema 10 [1, 2, 3]
      (Some ab_key) = Inr (RuntimeError ''OOM'', 30, Some ab_key)"
proof -
  have a50: "bump_Allocate 50 (key_byte_size ab_schema) = (0, 50)"
    and a10: "bump_Allocate 10 (key_byte_size ab_schema) = (11, 30)"
    by (simp_all add: bump_Allocate_def ab_schema_def)
  have d50: "nonempty_DecodeRowKey ab_schema [1, 2, 3] 0 50 = (OK, 50)"
    and d10: "nonempty_DecodeRowKey ab_schema [] 11 30 = (InvalidArgument ''key too short'', 30)"
    and o10: "oom_DecodeRowKey ab_schema [1, 2, 3] 11 30 = (RuntimeError ''OOM'', 30)"
    by (simp_all add: nonempty_DecodeRowKey_def oom_DecodeRowKey_def)
  have ne: "(11::nat) \<noteq> 0 \<and> InvalidArgument ''key too short'' \<noteq> OK"
    "(11::nat) \<noteq> 0 \<and> RuntimeError ''OOM'' \<noteq> OK"
    by simp_all
  have oom: "DecodeEncodedString True bump_Allocate nonempty_DecodeRowKey ab_schema 50
      [1, 2, 3] (Some ab_key) = Inr (RuntimeError ''OOM'', 50, Some ab_key)"
    using DecodeEncodedString_failures
        [where AllocateBytes = bump_Allocate and DecodeRowKey = nonempty_DecodeRowKey
           and dbg = True and result = "Some ab_key", OF a50 d50]
    by blast
  have bad: "DecodeEncodedString True bump_Allocate nonempty_DecodeRowKey ab_schema 10 []
      (Some ab_key) = Inr (InvalidArgument ''key too short'', 30, Some ab_key)"
    using DecodeEncodedString_failures
        [where AllocateBytes = bump_Allocate and DecodeRowKey = nonempty_DecodeRowKey
           and dbg = True and result = "Some ab_key", OF a10 d10] ne(1)
    by blast
  have dec_oom: "DecodeEncodedString True bump_Allocate oom_DecodeRowKey ab_schema 10
      [1, 2, 3] (Some ab_key) = Inr (RuntimeError ''OOM'', 30, Some ab_key)"
    using DecodeEncodedString_failures
        [where AllocateBytes = bump_Allocate and DecodeRowKey = oom_DecodeRowKey
           and dbg = True and result = "Some ab_key", OF a10 o10] ne(2)
    by blast
  show ?thesis
    by (intro conjI) (fact oom bad dec_oom)+
qed

text \<open>
  The claim as the spec words it, out-of-memory exactly when the allocation returns
  null, fails: a decoder that runs out of arena memory returns \<open>RuntimeError\<close> "OOM"
  itself, the call hands that status on, and the allocation was not null.
\<close>

theorem DecodeEncodedString_oom_with_allocation_counterexample:
  "fst (bump_Allocate 10 (key_byte_size ab_schema)) \<noteq> 0 \<and>
   DecodeEncodedString True bump_Allocate oom_DecodeRowKey ab_schema 10 [1, 2, 3] None =
     Inr (RuntimeError ''OOM'', 30, None)"
  by (simp add: DecodeEncodedString_def bump_Allocate_def oom_DecodeRowKey_def ab_schema_def)

subsection \<open>DecodeEncodedString, with its buffers in memory\<close>

lemma Slice_bytes_cong:
  "(\<And>a. slice_data s \<le> a \<Longrightarrow> a < slice_data s + slice_size s \<Longrightarrow> m1 a = m2 a) \<Longrightarrow>
   Slice_bytes m1 s = Slice_bytes m2 s"
  by (simp add: Slice_bytes_def)

lemma Slice_bytes_memcpy_dst:
  "Slice_bytes (memcpy mem dst (slice_data s) (slice_size s))
     \<lparr>slice_data = dst, slice_size = slice_size s\<rparr> =
   Slice_bytes mem s"
  by (rule nth_equalityI) (simp_all add: Slice_bytes_def memcpy_def)

lemma memcpy_elsewhere:
  "a < dst \<or> dst + n \<le> a \<Longrightarrow> memcpy mem dst src n a = mem a"
  by (auto simp add: memcpy_def)

lemma DecodeEncodedString_mem_null:
  "AllocateBytes A (key_byte_size S) = (0, A1) \<Longrightarrow>
   DecodeEncodedString_mem dbg AllocateBytes DecodeRowKey array S A mem E result =
     Inr (RuntimeError ''OOM'', A1, mem, result)"
  by (simp add: DecodeEncodedString_mem_def)

lemma DecodeEncodedString_mem_decode_error:
  "AllocateBytes A (key_byte_size S) = (buf, A1) \<Longrightarrow> buf \<noteq> 0 \<Longrightarrow>
   DecodeRowKey S E buf A1 mem = (s, A2, mem2) \<Longrightarrow> s \<noteq> OK \<Longrightarrow>
   DecodeEncodedString_mem dbg AllocateBytes DecodeRowKey array S A mem E result =
     Inr (s, A2, mem2, result)"
  by (simp add: DecodeEncodedString_mem_def)

lemma DecodeEncodedString_mem_decoded:
  "AllocateBytes A (key_byte_size S) = (buf, A1) \<Longrightarrow> buf \<noteq> 0 \<Longrightarrow>
   DecodeRowKey S E buf A1 mem = (OK, A2, mem2) \<Longrightarrow>
   DecodeEncodedString_mem dbg AllocateBytes DecodeRowKey array S A mem E result =
     (case DecodeEncodedString_loop S buf 0 (replicate (num_key_columns S) 0) of
        Inl f \<Rightarrow> Inl f
      | Inr raw \<Rightarrow>
          if dbg \<and> \<not> length raw \<le> num_key_columns S then Inl DCheckFailed
          else Inr (OK, A2, memcpy mem2 array (slice_data E) (slice_size E),
                    Some \<lparr>mem_data = array,
                          mem_encoded_key = \<lparr>slice_data = array, slice_size = slice_size E\<rparr>,
                          mem_raw_keys = raw, mem_num_key_cols = num_key_columns S\<rparr>))"
  by (simp add: DecodeEncodedString_mem_def EncodedKey_mem_new_def assign_copy_def
      release_def Let_def split: sum.splits)

text \<open>
  The model by bytes is what the model in memory comes to when each buffer is read:
  run on the bytes of the caller's buffer, it returns the same fault or the same
  status and arena, and as key the bytes of the key in memory. The decoder is taken
  to leave the caller's bytes as they are.
\<close>

lemma DecodeEncodedString_mem_abstraction:
  assumes alloc: "AllocateBytes A (key_byte_size S) = (buf, A1)"
    and dec: "DecodeRowKey S E buf A1 mem = (s, A2, mem2)"
    and frame: "Slice_bytes mem2 E = Slice_bytes mem E"
  shows "DecodeEncodedString dbg (with_memory_AllocateBytes AllocateBytes)
       (with_memory_DecodeRowKey DecodeRowKey E) S (A, mem) (Slice_bytes mem E) None =
     (case DecodeEncodedString_mem dbg AllocateBytes DecodeRowKey array S A mem E None of
        Inl f \<Rightarrow> Inl f
      | Inr (st, A3, mem3, r) \<Rightarrow>
          Inr (st, (A3, if st = OK then mem2 else mem3), map_option (EncodedKey_of mem3) r))"
proof -
  have alloc_v: "with_memory_AllocateBytes AllocateBytes (A, mem) (key_byte_size S) =
      (buf, (A1, mem))"
    using alloc by (simp add: with_memory_AllocateBytes_def)
  have dec_v: "with_memory_DecodeRowKey DecodeRowKey E S (Slice_bytes mem E) buf (A1, mem) =
      (s, (A2, mem2))"
    using dec by (simp add: with_memory_DecodeRowKey_def)
  show ?thesis
  proof (cases "buf = 0")
    case True
    then show ?thesis
      using alloc alloc_v
      by (simp add: DecodeEncodedString_null DecodeEncodedString_mem_null)
  next
    case nz: False
    show ?thesis
    proof (cases "s = OK")
      case False
      then show ?thesis
        using alloc alloc_v dec dec_v nz
        by (simp add: DecodeEncodedString_decode_error DecodeEncodedString_mem_decode_error)
    next
      case True
      have copy: "Slice_bytes (memcpy mem2 array (slice_data E) (slice_size E))
          \<lparr>slice_data = array, slice_size = slice_size E\<rparr> = Slice_bytes mem E"
        using frame by (simp add: Slice_bytes_memcpy_dst)
      show ?thesis
        using alloc alloc_v dec dec_v nz True
        by (simp add: DecodeEncodedString_decoded DecodeEncodedString_mem_decoded
            EncodedKey_new_def EncodedKey_of_def copy split: sum.splits)
    qed
  qed
qed

text \<open>
  A view that is the caller's own buffer changes with it: there is a memory that
  differs only inside the buffer and in which the view reads other bytes. So the last
  clause of the theorem below fails for a key that kept the caller's \<^verbatim>\<open>Slice\<close>.
\<close>

lemma retained_slice_follows_caller:
  assumes "0 < slice_size E"
  shows "\<exists>m. (\<forall>a. outside E a \<longrightarrow> m a = mem a) \<and> Slice_bytes m E \<noteq> Slice_bytes mem E"
proof -
  let ?m = "mem(slice_data E := mem (slice_data E) + 1)"
  have "\<forall>a. outside E a \<longrightarrow> ?m a = mem a"
    using assms by (auto simp add: outside_def)
  moreover have "Slice_bytes ?m E ! 0 \<noteq> Slice_bytes mem E ! 0"
    using assms by (simp add: Slice_bytes_def)
  then have "Slice_bytes ?m E \<noteq> Slice_bytes mem E"
    by auto
  ultimately show ?thesis
    by blast
qed

text \<open>
  C3. Let \<^verbatim>\<open>DecodeEncodedString\<close> return \<open>OK\<close>, the decoder leave the bytes of the
  caller's buffer as they are, and the array the copy is made in not overlap that
  buffer. Then the slot holds a key with one raw value per key column of the schema;
  raw value \<open>i\<close> is the address the arena returned for the allocation of
  \<^verbatim>\<open>key_byte_size()\<close> bytes plus \<^verbatim>\<open>column_offset(i)\<close>; the key's column count is the
  schema's. The key owns the new array, and its view \<^verbatim>\<open>encoded_key_\<close> is on that
  array, of the size of the encoded string, not on the caller's buffer. The view reads
  the bytes of the encoded string; the caller's buffer still holds them; and whatever
  is later written into the caller's buffer, the view reads the same bytes.
\<close>

theorem DecodeEncodedString_copies_encoded:
  assumes ok: "DecodeEncodedString_mem dbg AllocateBytes DecodeRowKey array S A mem E result =
      Inr (OK, A3, mem3, r)"
    and alloc: "AllocateBytes A (key_byte_size S) = (buf, A1)"
    and dec: "DecodeRowKey S E buf A1 mem = (s, A2, mem2)"
    and frame: "Slice_bytes mem2 E = Slice_bytes mem E"
    and fresh: "disjoint_from array E"
  shows "\<exists>k. r = Some k \<and>
     length (mem_raw_keys k) = num_key_columns S \<and>
     (\<forall>i < num_key_columns S. \<exists>off. column_offset S i = Inr off \<and>
        mem_raw_keys k ! i = buf + off) \<and>
     mem_num_key_cols k = num_key_columns S \<and>
     mem_data k = array \<and>
     mem_encoded_key k = \<lparr>slice_data = array, slice_size = slice_size E\<rparr> \<and>
     Slice_bytes mem3 (mem_encoded_key k) = Slice_bytes mem E \<and>
     Slice_bytes mem3 E = Slice_bytes mem E \<and>
     (\<forall>m. (\<forall>a. outside E a \<longrightarrow> m a = mem3 a) \<longrightarrow>
        Slice_bytes m (mem_encoded_key k) = Slice_bytes mem E)"
proof -
  have nz: "buf \<noteq> 0"
    using ok alloc by (cases "buf = 0") (simp_all add: DecodeEncodedString_mem_null)
  have s: "s = OK"
    using ok alloc nz dec
    by (cases "s = OK") (simp_all add: DecodeEncodedString_mem_decode_error)
  let ?view = "\<lparr>slice_data = array, slice_size = slice_size E\<rparr>"
  from ok obtain raw where
    loop: "DecodeEncodedString_loop S buf 0 (replicate (num_key_columns S) 0) = Inr raw"
    and mem3: "mem3 = memcpy mem2 array (slice_data E) (slice_size E)"
    and r: "r = Some \<lparr>mem_data = array, mem_encoded_key = ?view,
                      mem_raw_keys = raw, mem_num_key_cols = num_key_columns S\<rparr>"
    using alloc nz dec s
    by (auto simp add: DecodeEncodedString_mem_decoded split: sum.splits if_splits)
  have raw: "length raw = num_key_columns S \<and>
   (\<forall>j < num_key_columns S.
      (j < 0 \<longrightarrow> raw ! j = replicate (num_key_columns S) 0 ! j) \<and>
      (0 \<le> j \<longrightarrow> column_offset S j = Inr (col_offsets S ! j) \<and>
                 raw ! j = buf + col_offsets S ! j))"
    using loop by (rule DecodeEncodedString_loop_result) simp
  have copy: "Slice_bytes mem3 ?view = Slice_bytes mem E"
  proof -
    have "Slice_bytes mem3 ?view = Slice_bytes mem2 E"
      unfolding mem3 by (rule Slice_bytes_memcpy_dst)
    then show ?thesis
      using frame by simp
  qed
  have kept: "Slice_bytes mem3 E = Slice_bytes mem E"
  proof -
    have "Slice_bytes mem3 E = Slice_bytes mem2 E"
      unfolding mem3
      using fresh by (intro Slice_bytes_cong memcpy_elsewhere) (auto simp add: disjoint_from_def)
    then show ?thesis
      using frame by simp
  qed
  have apart: "Slice_bytes m ?view = Slice_bytes mem E"
    if m: "\<forall>a. outside E a \<longrightarrow> m a = mem3 a" for m
  proof -
    have "Slice_bytes m ?view = Slice_bytes mem3 ?view"
    proof (rule Slice_bytes_cong)
      fix a
      assume "slice_data ?view \<le> a" and "a < slice_data ?view + slice_size ?view"
      then have "outside E a"
        using fresh by (auto simp add: outside_def disjoint_from_def)
      then show "m a = mem3 a"
        using m by simp
    qed
    then show ?thesis
      using copy by simp
  qed
  show ?thesis
    using r raw copy kept apart by simp
qed

theorem DecodeEncodedString_copies_encoded_witness:
  "DecodeEncodedString_mem True bump_Allocate cell_DecodeRowKey 200 ab_schema 10
       address_bytes caller_slice None =
     Inr (OK, 30, memcpy (address_bytes(11 := address_bytes 100)) 200 100 3,
          Some \<lparr>mem_data = 200, mem_encoded_key = \<lparr>slice_data = 200, slice_size = 3\<rparr>,
                mem_raw_keys = [11, 15], mem_num_key_cols = 2\<rparr>) \<and>
   Slice_bytes address_bytes caller_slice = [100, 101, 102] \<and>
   Slice_bytes (memcpy (address_bytes(11 := address_bytes 100)) 200 100 3)
     \<lparr>slice_data = 200, slice_size = 3\<rparr> = [100, 101, 102] \<and>
   Slice_bytes ((memcpy (address_bytes(11 := address_bytes 100)) 200 100 3)(101 := 0))
     \<lparr>slice_data = 200, slice_size = 3\<rparr> = [100, 101, 102] \<and>
   Slice_bytes ((memcpy (address_bytes(11 := address_bytes 100)) 200 100 3)(101 := 0))
     caller_slice = [100, 0, 102]"
proof -
  let ?mem2 = "address_bytes(11 := address_bytes 100)"
  let ?mem3 = "memcpy ?mem2 200 100 3"
  let ?k = "\<lparr>mem_data = 200, mem_encoded_key = \<lparr>slice_data = 200, slice_size = 3\<rparr>,
             mem_raw_keys = [11, 15], mem_num_key_cols = 2\<rparr>"
  have alloc: "bump_Allocate 10 (key_byte_size ab_schema) = (11, 30)"
    by (simp add: bump_Allocate_def ab_schema_def)
  have dec: "cell_DecodeRowKey ab_schema caller_slice 11 30 address_bytes = (OK, 30, ?mem2)"
    by (simp add: cell_DecodeRowKey_def caller_slice_def)
  have loop: "DecodeEncodedString_loop ab_schema 11 0 (replicate (num_key_columns ab_schema) 0)
      = Inr [11, 15]"
    by code_simp
  have run: "DecodeEncodedString_mem True bump_Allocate cell_DecodeRowKey 200 ab_schema 10
       address_bytes caller_slice None = Inr (OK, 30, ?mem3, Some ?k)"
    using alloc dec loop
    by (simp add: DecodeEncodedString_mem_decoded) (simp add: caller_slice_def ab_schema_def)
  have bytes: "Slice_bytes address_bytes caller_slice = [100, 101, 102]"
    by code_simp
  have frame: "Slice_bytes ?mem2 caller_slice = Slice_bytes address_bytes caller_slice"
    by code_simp
  have fresh: "disjoint_from 200 caller_slice"
    by (simp add: disjoint_from_def caller_slice_def)
  have later: "\<forall>a. outside caller_slice a \<longrightarrow> (?mem3(101 := 0)) a = ?mem3 a"
    by (simp add: outside_def caller_slice_def)
  from DecodeEncodedString_copies_encoded [OF run alloc dec frame fresh]
  have view: "Slice_bytes ?mem3 (mem_encoded_key ?k) = Slice_bytes address_bytes caller_slice"
    and apart: "\<forall>m. (\<forall>a. outside caller_slice a \<longrightarrow> m a = ?mem3 a) \<longrightarrow>
        Slice_bytes m (mem_encoded_key ?k) = Slice_bytes address_bytes caller_slice"
    by auto
  have c3: "Slice_bytes ?mem3 \<lparr>slice_data = 200, slice_size = 3\<rparr> = [100, 101, 102]"
    using view bytes by simp
  have c4: "Slice_bytes (?mem3(101 := 0)) \<lparr>slice_data = 200, slice_size = 3\<rparr> =
      [100, 101, 102]"
    using apart later bytes by (metis EncodedKey_mem.select_convs(2))
  have c5: "Slice_bytes (?mem3(101 := 0)) caller_slice = [100, 0, 102]"
    by code_simp
  show ?thesis
    by (intro conjI) (fact run bytes c3 c4 c5)+
qed

subsection \<open>Stringify\<close>

lemma Stringify_loop_pieces:
  "i \<le> num_key_cols K \<Longrightarrow> length (raw_keys K) \<le> length (cols S) \<Longrightarrow>
   Stringify_loop str S K i s =
     Inr (s @ concat (map (\<lambda>j. (if 0 < j then '','' else []) @ render_column str S K j)
                       [i..<num_key_cols K]))"
proof (induction str S K i s rule: Stringify_loop.induct)
  case (1 str S K i s)
  show ?case
  proof (cases "i < num_key_cols K")
    case True
    let ?s1 = "if 0 < i then s @ '','' else s"
    have upt: "[i..<num_key_cols K] = i # [i + 1..<num_key_cols K]"
      using True by (simp add: upt_conv_Cons)
    show ?thesis
    proof (cases "i < length (raw_keys K)")
      case has_value: True
      then have col: "column S i = Inr (cols S ! i)"
        using "1.prems" by (simp add: column_def)
      have "Stringify_loop str S K (i + 1) (?s1 @ str (cols S ! i) (raw_keys K ! i)) =
          Inr ((?s1 @ str (cols S ! i) (raw_keys K ! i)) @
               concat (map (\<lambda>j. (if 0 < j then '','' else []) @ render_column str S K j)
                         [i + 1..<num_key_cols K]))"
        using True has_value col "1.prems" by (intro "1.IH"(1)) simp_all
      then show ?thesis
        using True has_value col
        by (subst Stringify_loop.simps) (simp add: upt render_column_def)
    next
      case wildcard: False
      have "Stringify_loop str S K (i + 1) (?s1 @ ''*'') =
          Inr ((?s1 @ ''*'') @
               concat (map (\<lambda>j. (if 0 < j then '','' else []) @ render_column str S K j)
                         [i + 1..<num_key_cols K]))"
        using True wildcard "1.prems" by (intro "1.IH"(2)) simp_all
      then show ?thesis
        using True wildcard
        by (subst Stringify_loop.simps) (simp add: upt render_column_def)
    qed
  next
    case False
    then show ?thesis
      using "1.prems" by (subst Stringify_loop.simps) simp
  qed
qed

lemma comma_separated_Cons:
  "comma_separated (x # xs) = x @ concat (map (\<lambda>y. '','' @ y) xs)"
  by (induction xs arbitrary: x) simp_all

lemma pieces_comma_separated:
  "concat (map (\<lambda>j. (if 0 < j then '','' else []) @ f j) [0..<n]) =
   comma_separated (map f [0..<n])"
proof (cases n)
  case 0
  then show ?thesis by simp
next
  case (Suc m)
  have u: "[0..<Suc m] = 0 # [Suc 0..<Suc m]"
    by (rule upt_conv_Cons) simp
  have tl: "map (\<lambda>j. (if 0 < j then '','' else []) @ f j) [Suc 0..<Suc m] =
      map (\<lambda>j. '','' @ f j) [Suc 0..<Suc m]"
    by (rule map_cong) auto
  have l: "concat (map (\<lambda>j. (if 0 < j then '','' else []) @ f j) [0..<Suc m]) =
      f 0 @ concat (map (\<lambda>j. '','' @ f j) [Suc 0..<Suc m])"
    unfolding u by (simp add: tl del: upt_Suc)
  have r: "comma_separated (map f [0..<Suc m]) =
      f 0 @ concat (map (\<lambda>j. '','' @ f j) [Suc 0..<Suc m])"
    unfolding u by (simp add: comma_separated_Cons comp_def del: upt_Suc)
  show ?thesis
    using l r Suc by simp
qed

lemma Stringify_tuple:
  assumes "num_key_cols K \<noteq> 1" and "length (raw_keys K) \<le> length (cols S)"
  shows "Stringify str S K = Inr (render_tuple str S K)"
proof -
  have "Stringify_loop str S K 0 ''('' =
     Inr (''('' @ concat (map (\<lambda>j. (if 0 < j then '','' else []) @ render_column str S K j)
                       [0..<num_key_cols K]))"
    using assms(2) by (intro Stringify_loop_pieces) simp_all
  then show ?thesis
    using assms(1) by (simp add: Stringify_def render_tuple_def pieces_comma_separated)
qed

lemma Stringify_single:
  assumes "num_key_cols K = 1"
  shows "Stringify str S K =
     (if cols S = [] \<or> raw_keys K = [] then Inl OutOfRange
      else Inr (str (cols S ! 0) (raw_keys K ! 0)))"
  using assms by (cases "raw_keys K") (auto simp add: Stringify_def column_def)

text \<open>
  C8. Take a key holding \<open>k\<close> raw values, \<open>k\<close> at most its column count, and a schema
  with a column for each of them. With two or more key columns \<^verbatim>\<open>Stringify\<close> returns
  the tuple in parentheses, comma separated, in which each column below \<open>k\<close> is
  rendered by its column's formatter and each column from \<open>k\<close> on is \<open>*\<close>
  (\<open>render_tuple\<close>). With one key column, and its value present, it returns what the
  formatter of column \<open>0\<close> makes of the first raw value, without parentheses.
  \<^verbatim>\<open>Stringify\<close> is a function of the key and the schema: it changes neither.
\<close>

theorem Stringify_renders_tuple:
  assumes "length (raw_keys K) \<le> num_key_cols K"
    and "length (raw_keys K) \<le> length (cols S)"
  shows "(2 \<le> num_key_cols K \<longrightarrow> Stringify str S K = Inr (render_tuple str S K)) \<and>
         (num_key_cols K = 1 \<and> raw_keys K \<noteq> [] \<longrightarrow>
            Stringify str S K = Inr (str (cols S ! 0) (raw_keys K ! 0)))"
proof (intro conjI impI)
  assume "2 \<le> num_key_cols K"
  then have "num_key_cols K \<noteq> 1"
    by simp
  then show "Stringify str S K = Inr (render_tuple str S K)"
    using assms(2) by (rule Stringify_tuple)
next
  assume one: "num_key_cols K = 1 \<and> raw_keys K \<noteq> []"
  then have "cols S \<noteq> []"
    using assms(2) by auto
  then show "Stringify str S K = Inr (str (cols S ! 0) (raw_keys K ! 0))"
    using one by (simp add: Stringify_single)
qed

theorem Stringify_renders_tuple_witness:
  "Stringify show_cell ab_schema a_prefix_key = Inr ''(i|||||||,*)'' \<and>
   Stringify show_cell ab_schema ab_key = Inr ''(i|||||||,s|||||||||)'' \<and>
   Stringify show_cell a_schema a_key = Inr ''i|||||||''"
proof -
  have p: "length (raw_keys a_prefix_key) \<le> num_key_cols a_prefix_key"
      "length (raw_keys a_prefix_key) \<le> length (cols ab_schema)"
      "2 \<le> num_key_cols a_prefix_key"
    by (simp_all add: a_prefix_key_def ab_schema_def)
  have c: "length (raw_keys ab_key) \<le> num_key_cols ab_key"
      "length (raw_keys ab_key) \<le> length (cols ab_schema)"
      "2 \<le> num_key_cols ab_key"
    by (simp_all add: ab_key_def ab_schema_def)
  have a: "length (raw_keys a_key) \<le> num_key_cols a_key"
      "length (raw_keys a_key) \<le> length (cols a_schema)"
      "num_key_cols a_key = 1 \<and> raw_keys a_key \<noteq> []"
    by (simp_all add: a_key_def a_schema_def)
  have rp: "render_tuple show_cell ab_schema a_prefix_key = ''(i|||||||,*)''"
    by code_simp
  have rc: "render_tuple show_cell ab_schema ab_key = ''(i|||||||,s|||||||||)''"
    by code_simp
  have ra: "show_cell (cols a_schema ! 0) (raw_keys a_key ! 0) = ''i|||||||''"
    by code_simp
  have "Stringify show_cell ab_schema a_prefix_key = Inr ''(i|||||||,*)''"
    using Stringify_renders_tuple [OF p(1,2), of show_cell] p(3) rp by simp
  moreover have "Stringify show_cell ab_schema ab_key = Inr ''(i|||||||,s|||||||||)''"
    using Stringify_renders_tuple [OF c(1,2), of show_cell] c(3) rc by simp
  moreover have "Stringify show_cell a_schema a_key = Inr ''i|||||||''"
    using Stringify_renders_tuple [OF a(1,2), of show_cell] a(3) ra by simp
  ultimately show ?thesis
    by simp
qed

text \<open>
  C10. For a key with one key column \<^verbatim>\<open>Stringify\<close> reads the first raw value whatever
  the number of raw values: with none it reads an empty vector (a fault, not the
  wildcard); with one or more, and a schema that has a column, it returns the
  formatter's text for the first. So it returns a text only if the key holds a raw
  value.
\<close>

theorem Stringify_single_column_reads_front:
  assumes "num_key_cols K = 1"
  shows "(raw_keys K = [] \<longrightarrow> Stringify str S K = Inl OutOfRange) \<and>
         (raw_keys K \<noteq> [] \<and> cols S \<noteq> [] \<longrightarrow>
            Stringify str S K = Inr (str (cols S ! 0) (raw_keys K ! 0))) \<and>
         ((\<exists>s. Stringify str S K = Inr s) \<longrightarrow> 1 \<le> length (raw_keys K))"
  using assms by (cases "raw_keys K") (auto simp add: Stringify_single)

theorem Stringify_single_column_reads_front_witness:
  "Stringify show_cell a_schema no_value_key = Inl OutOfRange \<and>
   Stringify show_cell a_schema a_key = Inr ''i|||||||''"
proof -
  have n: "num_key_cols no_value_key = 1" "raw_keys no_value_key = []"
    by (simp_all add: no_value_key_def)
  have a: "num_key_cols a_key = 1" "raw_keys a_key \<noteq> [] \<and> cols a_schema \<noteq> []"
    by (simp_all add: a_key_def a_schema_def)
  have ra: "show_cell (cols a_schema ! 0) (raw_keys a_key ! 0) = ''i|||||||''"
    by code_simp
  have "Stringify show_cell a_schema no_value_key = Inl OutOfRange"
    using Stringify_single_column_reads_front [OF n(1), of show_cell a_schema] n(2) by blast
  moreover have "Stringify show_cell a_schema a_key = Inr ''i|||||||''"
    using Stringify_single_column_reads_front [OF a(1), of show_cell a_schema] a(2) ra
    by simp
  ultimately show ?thesis
    by simp
qed

end
